theory Spec2Isabelle
  imports Complex_Main "HOL-Library.Sublist" "HOL-Library.Multiset"
begin

section \<open>JavaScript values used by the console\<close>

text \<open>
  Strings are lists of 8-bit characters (the UTF-8 bytes of the JavaScript string); every
  pattern the code searches for is ASCII, so a match on the bytes is a match on the string.
  Characters outside ASCII are the byte sequences that encode them.
  Numbers are modelled as reals: rounding of IEEE doubles, NaN and the infinities are outside
  the model.
\<close>

definition startsWith :: "string \<Rightarrow> string \<Rightarrow> bool" where
  "startsWith s p = prefix p s"

definition endsWith :: "string \<Rightarrow> string \<Rightarrow> bool" where
  "endsWith s p = suffix p s"

definition str_includes :: "string \<Rightarrow> string \<Rightarrow> bool" where
  "str_includes s p = sublist p s"

text \<open>
  \<open>toLowerCase\<close>. The characters whose lower case has an ASCII letter in it are the letters
  \<open>A\<close> to \<open>Z\<close>, the Kelvin sign U+212A (lower case \<open>k\<close>) and the dotted capital I U+0130
  (lower case \<open>i\<close> followed by U+0307). Every other character outside ASCII is left as it
  is: its lower case is outside ASCII too, so no search for an ASCII pattern tells the
  difference.
\<close>

definition lower_char :: "char \<Rightarrow> char" where
  "lower_char c =
     (case map_of (zip ''ABCDEFGHIJKLMNOPQRSTUVWXYZ'' ''abcdefghijklmnopqrstuvwxyz'') c of
        None \<Rightarrow> c
      | Some l \<Rightarrow> l)"

fun toLowerCase :: "string \<Rightarrow> string" where
  "toLowerCase [] = []"
| "toLowerCase (c # cs) =
     (if prefix [CHR 0xE2, CHR 0x84, CHR 0xAA] (c # cs) then CHR ''k'' # toLowerCase (drop 2 cs)
      else if prefix [CHR 0xC4, CHR 0xB0] (c # cs) then
        CHR ''i'' # CHR 0xCC # CHR 0x87 # toLowerCase (drop 1 cs)
      else lower_char c # toLowerCase cs)"

text \<open>\<open>a ?? d\<close>: the default replaces only a missing value.\<close>

definition nullish_or :: "'a option \<Rightarrow> 'a \<Rightarrow> 'a" where
  "nullish_or a d = (case a of None \<Rightarrow> d | Some v \<Rightarrow> v)"

text \<open>\<open>a || d\<close> on an optional number: the default replaces a missing value and zero.\<close>

definition num_or :: "real option \<Rightarrow> real \<Rightarrow> real" where
  "num_or a d = (case a of None \<Rightarrow> d | Some v \<Rightarrow> if v = 0 then d else v)"

text \<open>\<open>a || d\<close> on an optional string: the default replaces a missing value and the empty string.\<close>

definition str_or :: "string option \<Rightarrow> string option \<Rightarrow> string option" where
  "str_or a d = (case a of None \<Rightarrow> d | Some v \<Rightarrow> if v = [] then d else Some v)"

text \<open>\<open>a || d\<close> where \<open>d\<close> is a string that is always there.\<close>

definition str_or_else :: "string option \<Rightarrow> string \<Rightarrow> string" where
  "str_or_else a d = (case a of None \<Rightarrow> d | Some v \<Rightarrow> if v = [] then d else v)"

text \<open>\<open>s.replace(pat, rep)\<close> with a string pattern: only the first occurrence is replaced.\<close>

fun replace_first :: "string \<Rightarrow> string \<Rightarrow> string \<Rightarrow> string" where
  "replace_first [] pat rep = (if pat = [] then rep else [])"
| "replace_first (c # cs) pat rep =
     (if prefix pat (c # cs) then rep @ drop (length pat) (c # cs)
      else c # replace_first cs pat rep)"

text \<open>\<open>s.split(sep)\<close> with a one-character separator, and \<open>parts.join(sep)\<close>.\<close>

fun split_on :: "char \<Rightarrow> string \<Rightarrow> string list" where
  "split_on sep [] = [[]]"
| "split_on sep (c # cs) =
     (if c = sep then [] # split_on sep cs
      else (case split_on sep cs of [] \<Rightarrow> [[c]] | p # ps \<Rightarrow> (c # p) # ps))"

fun join :: "string \<Rightarrow> string list \<Rightarrow> string" where
  "join sep [] = []"
| "join sep [p] = p"
| "join sep (p # q # ps) = p @ sep @ join sep (q # ps)"

text \<open>\<open>Math.round\<close>: the nearest integer, a tie going up.\<close>

definition js_round :: "real \<Rightarrow> int" where
  "js_round x = \<lfloor>x + 1 / 2\<rfloor>"

text \<open>\<open>Number(x.toFixed(1))\<close>: the nearest multiple of one tenth, a tie going up.\<close>

definition toFixed1 :: "real \<Rightarrow> real" where
  "toFixed1 x = real_of_int \<lfloor>x * 10 + 1 / 2\<rfloor> / 10"

text \<open>
  Division with the divisor checked: \<open>None\<close> stands for the non-finite result (Infinity or
  NaN) that JavaScript gives for a zero divisor.
\<close>

definition js_divide :: "real \<Rightarrow> real \<Rightarrow> real option" where
  "js_divide a b = (if b = 0 then None else Some (a / b))"

section \<open>Account records (types of the console)\<close>

record KiroBonus =
  bonus_displayName :: string
  bonus_currentUsage :: "real option"
  bonus_usageLimit :: "real option"

record KiroFreeTrialInfo =
  trial_currentUsage :: "real option"
  trial_usageLimit :: "real option"

record KiroUsageBreakdown =
  currentUsage :: "real option"
  usageLimit :: "real option"
  bd_nextDateReset :: "real option"
  overageRate :: "real option"
  freeTrialInfo :: "KiroFreeTrialInfo option"
  bonuses :: "KiroBonus list option"

record KiroSubscriptionInfo =
  sub_type :: string
  subscriptionTitle :: string
  overageCapability :: "string option"
  upgradeCapability :: "string option"

record KiroUserInfo =
  user_email :: "string option"
  userId :: "string option"

record KiroOverageConfiguration =
  overageStatus :: string

record KiroUsageData =
  usageBreakdownList :: "KiroUsageBreakdown list option"
  usageBreakdown :: "KiroUsageBreakdown option"
  subscriptionInfo :: "KiroSubscriptionInfo option"
  userInfo :: "KiroUserInfo option"
  overageConfiguration :: "KiroOverageConfiguration option"
  daysUntilReset :: "real option"
  nextDateReset :: "real option"

record KiroAccountItem =
  acc_id :: string
  email :: string
  label :: "string option"
  provider :: string
  authMethod :: string
  status :: string
  accessToken :: "string option"
  refreshToken :: "string option"
  profileArn :: "string option"
  expiresAt :: "string option"
  clientId :: "string option"
  clientSecret :: "string option"
  clientIdHash :: "string option"
  region :: "string option"
  startUrl :: "string option"
  usageData :: "KiroUsageData option"
  createdAt :: "string option"
  updatedAt :: "string option"
  lastRefreshedAt :: "string option"
  fileName :: "string option"
  filePath :: "string option"

record KiroAccountStats =
  total :: nat
  active :: nat
  banned :: nat
  expired :: nat
  proPlus :: nat
  pro :: nat
  free :: nat
  totalQuota :: int
  totalUsed :: int
  usagePercent :: real
  remaining :: int

section \<open>Usage statistics (utils/kiro/stats.ts)\<close>

text \<open>The three status strings that count as active: \<open>active\<close> and two Chinese words, as UTF-8.\<close>

definition KIRO_STATUS_ACTIVE :: "string list" where
  "KIRO_STATUS_ACTIVE =
     [''active'',
      [CHR 0xE6, CHR 0xAD, CHR 0xA3, CHR 0xE5, CHR 0xB8, CHR 0xB8],
      [CHR 0xE6, CHR 0x9C, CHR 0x89, CHR 0xE6, CHR 0x95, CHR 0x88]]"

text \<open>\<open>usageBreakdownList?.[0] || usageBreakdown || null\<close>\<close>

definition getBreakdown :: "KiroAccountItem \<Rightarrow> KiroUsageBreakdown option" where
  "getBreakdown account =
     (case usageData account of
        None \<Rightarrow> None
      | Some ud \<Rightarrow>
          (case (case usageBreakdownList ud of
                   None \<Rightarrow> None
                 | Some l \<Rightarrow> (case l of [] \<Rightarrow> None | b # _ \<Rightarrow> Some b)) of
             Some b \<Rightarrow> Some b
           | None \<Rightarrow> usageBreakdown ud))"

definition getQuota :: "KiroAccountItem \<Rightarrow> real" where
  "getQuota account =
     (case getBreakdown account of
        None \<Rightarrow> - 1
      | Some breakdown \<Rightarrow>
          (let main = nullish_or (usageLimit breakdown) 0;
               freeTrial = (case freeTrialInfo breakdown of
                              None \<Rightarrow> 0
                            | Some ft \<Rightarrow> nullish_or (trial_usageLimit ft) 0);
               bonus = (case bonuses breakdown of
                          None \<Rightarrow> 0
                        | Some bs \<Rightarrow> foldl (\<lambda>sum b. sum + num_or (bonus_usageLimit b) 0) 0 bs)
           in main + freeTrial + bonus))"

definition getUsed :: "KiroAccountItem \<Rightarrow> real" where
  "getUsed account =
     (case getBreakdown account of
        None \<Rightarrow> - 1
      | Some breakdown \<Rightarrow>
          (let main = nullish_or (currentUsage breakdown) 0;
               freeTrial = (case freeTrialInfo breakdown of
                              None \<Rightarrow> 0
                            | Some ft \<Rightarrow> nullish_or (trial_currentUsage ft) 0);
               bonus = (case bonuses breakdown of
                          None \<Rightarrow> 0
                        | Some bs \<Rightarrow> foldl (\<lambda>sum b. sum + num_or (bonus_currentUsage b) 0) 0 bs)
           in main + freeTrial + bonus))"

definition getSubType :: "KiroAccountItem \<Rightarrow> string" where
  "getSubType account =
     (case usageData account of
        None \<Rightarrow> []
      | Some ud \<Rightarrow> (case subscriptionInfo ud of None \<Rightarrow> [] | Some si \<Rightarrow> sub_type si))"

definition getSubPlan :: "KiroAccountItem \<Rightarrow> string" where
  "getSubPlan account =
     (case usageData account of
        None \<Rightarrow> []
      | Some ud \<Rightarrow> (case subscriptionInfo ud of None \<Rightarrow> [] | Some si \<Rightarrow> subscriptionTitle si))"

text \<open>
  \<open>quota === 0 ? 0 : Math.min(100, (used / quota) * 100)\<close>. The division is the checked
  one, so that a division by zero would show as \<open>None\<close>.
\<close>

definition getUsagePercent :: "real \<Rightarrow> real \<Rightarrow> real option" where
  "getUsagePercent used quota =
     (if quota = 0 then Some 0
      else map_option (\<lambda>q. min 100 (q * 100)) (js_divide used quota))"

definition isProPlus :: "KiroAccountItem \<Rightarrow> bool" where
  "isProPlus account =
     (let subType = getSubType account; subPlan = getSubPlan account
      in str_includes subType ''PRO_PLUS'' \<or> str_includes subType ''PRO+'' \<or>
         str_includes subPlan ''PRO+'' \<or> str_includes (toLowerCase subPlan) ''pro plus'')"

definition isPro :: "KiroAccountItem \<Rightarrow> bool" where
  "isPro account =
     (if isProPlus account then False
      else (let subType = getSubType account; subPlan = getSubPlan account
            in str_includes subType ''PRO'' \<or> str_includes subPlan ''PRO''))"

definition isFree :: "KiroAccountItem \<Rightarrow> bool" where
  "isFree account =
     (let subType = getSubType account; subPlan = getSubPlan account
      in if subType = [] \<and> subPlan = [] then True
         else str_includes subType ''FREE'' \<or> str_includes (toLowerCase subPlan) ''free'')"

definition isAccountActive :: "KiroAccountItem \<Rightarrow> bool" where
  "isAccountActive account = List.member KIRO_STATUS_ACTIVE (status account)"

definition isAccountExpired :: "KiroAccountItem \<Rightarrow> bool" where
  "isAccountExpired account = (status account = ''expired'')"

definition isAccountBanned :: "KiroAccountItem \<Rightarrow> bool" where
  "isAccountBanned account = (status account = ''banned'')"

definition calcAccountStats :: "KiroAccountItem list \<Rightarrow> KiroAccountStats" where
  "calcAccountStats accounts =
     (let accountsWithUsage = filter (\<lambda>a. getQuota a \<ge> 0) accounts;
          tq = js_round (foldl (\<lambda>sum a. sum + getQuota a) 0 accountsWithUsage);
          tu = js_round (foldl (\<lambda>sum a. let used = getUsed a
                                          in sum + (if used \<ge> 0 then used else 0))
                               0 accountsWithUsage)
      in \<lparr> total = length accounts,
           active = length (filter isAccountActive accounts),
           banned = length (filter isAccountBanned accounts),
           expired = length (filter isAccountExpired accounts),
           proPlus = length (filter isProPlus accounts),
           pro = length (filter isPro accounts),
           free = length (filter isFree accounts),
           totalQuota = tq,
           totalUsed = tu,
           usagePercent = (if tq > 0 then toFixed1 (real_of_int tu / real_of_int tq * 100) else 0),
           remaining = tq - tu \<rparr>)"

section \<open>The browser tab: backend, storage and cache\<close>

text \<open>
  The API client, the HTTP server behind it, \<open>localStorage\<close>, \<open>JSON\<close> and \<open>Date\<close> are not
  code of the console. The server is a state of any type \<open>'b\<close> with one handler per endpoint
  the console calls; a handler answers with the response body or with the error the API client
  throws. The tab keeps the order of its outgoing requests and cache updates in \<open>effects\<close>.
\<close>

datatype js_error = QuotaExceededError | SyntaxError | TypeError | RequestFailed string

definition String_of_error :: "js_error \<Rightarrow> string" where
  "String_of_error e =
     (case e of
        QuotaExceededError \<Rightarrow> ''QuotaExceededError''
      | SyntaxError \<Rightarrow> ''SyntaxError''
      | TypeError \<Rightarrow> ''TypeError''
      | RequestFailed m \<Rightarrow> ''Error: '' @ m)"

text \<open>
  The requests the console sends: \<open>GET /auth-files\<close>, \<open>GET /auth-files?name=...\<close> and
  \<open>DELETE /auth-files?name=...\<close> with the (URL-encoded) file name, and \<open>GET /kiro-usage\<close> with
  the file name as parameter \<open>name\<close>.
\<close>

datatype request =
    GetAuthFiles
  | GetAuthFile string
  | DeleteAuthFile string
  | GetKiroUsage string

datatype effect = Http request | CacheUpdate "KiroAccountItem list"

text \<open>An entry of the file list of \<open>GET /auth-files\<close>: the fields the console reads.\<close>

record AuthFileItem =
  af_name :: string
  af_email :: "string option"
  af_label :: "string option"
  af_status :: "string option"

record AuthFilesResponse =
  files :: "AuthFileItem list option"

text \<open>The \<open>metadata\<close> object and the content of one auth file: the keys the console reads.\<close>

record AuthFileMetadata =
  m_email :: "string option"
  m_label :: "string option"
  m_profileArn :: "string option"
  m_region :: "string option"
  m_startUrl :: "string option"
  m_createdAt :: "string option"
  m_updatedAt :: "string option"

record AuthFileContent =
  c_accessToken :: "string option"
  c_access_token :: "string option"
  c_expiresAt :: "string option"
  c_expires_at :: "string option"
  c_usageData :: "KiroUsageData option"
  c_usage :: "KiroUsageData option"
  c_email :: "string option"
  c_metadata :: "AuthFileMetadata option"
  c_label :: "string option"
  c_refreshToken :: "string option"
  c_refresh_token :: "string option"
  c_profileArn :: "string option"
  c_clientId :: "string option"
  c_client_id :: "string option"
  c_clientSecret :: "string option"
  c_client_secret :: "string option"
  c_clientIdHash :: "string option"
  c_region :: "string option"
  c_startUrl :: "string option"
  c_createdAt :: "string option"
  c_updatedAt :: "string option"
  c_lastRefreshedAt :: "string option"
  c_last_refresh :: "string option"
  c_filePath :: "string option"

text \<open>The body of \<open>GET /kiro-usage\<close>.\<close>

record KiroUsageResponse =
  ur_status :: string
  subscription_title :: "string option"
  current_usage :: "real option"
  usage_limit :: "real option"
  next_reset :: "string option"
  ur_error :: "string option"

record 'b backend =
  get_auth_files :: "'b \<Rightarrow> (js_error + AuthFilesResponse option) \<times> 'b"
  get_auth_file :: "string \<Rightarrow> 'b \<Rightarrow> (js_error + AuthFileContent option) \<times> 'b"
  delete_auth_file :: "string \<Rightarrow> 'b \<Rightarrow> (js_error + unit) \<times> 'b"
  get_kiro_usage :: "string \<Rightarrow> 'b \<Rightarrow> (js_error + KiroUsageResponse) \<times> 'b"

text \<open>
  The built-ins of the JavaScript runtime the console calls: \<open>JSON.stringify\<close> and
  \<open>JSON.parse\<close> on account lists (\<open>None\<close>: the call throws, or the text is not the JSON of
  an account list), \<open>new Date(s)\<close> as milliseconds (\<open>None\<close>: an invalid date) and the clock.
\<close>

record runtime =
  JSON_stringify :: "KiroAccountItem list \<Rightarrow> string option"
  JSON_parse :: "string \<Rightarrow> KiroAccountItem list option"
  Date_parse :: "string \<Rightarrow> real option"
  Date_now :: real

text \<open>
  \<open>localStorage\<close>: the stored items, and which writes the browser accepts (\<open>setItem\<close> throws
  for the others, as it does when the quota is exceeded or storage is disabled).
\<close>

record Storage =
  items :: "string \<rightharpoonup> string"
  accepts :: "string \<Rightarrow> string \<Rightarrow> bool"

definition getItem :: "Storage \<Rightarrow> string \<Rightarrow> string option" where
  "getItem st k = items st k"

definition setItem :: "Storage \<Rightarrow> string \<Rightarrow> string \<Rightarrow> js_error + Storage" where
  "setItem st k v =
     (if accepts st k v then Inr (st\<lparr>items := (items st)(k \<mapsto> v)\<rparr>)
      else Inl QuotaExceededError)"

text \<open>
  The tab: the server it talks to, the record of its effects, the storage, the module
  variables \<open>cachedAccounts\<close> and \<open>cachedStats\<close> of the Kiro page and its React state
  \<open>accounts\<close> and \<open>stats\<close>.
\<close>

record 'b world =
  server :: 'b
  effects :: "effect list"
  localStorage :: Storage
  cachedAccounts :: "KiroAccountItem list"
  cachedStats :: KiroAccountStats
  ui_accounts :: "KiroAccountItem list"
  ui_stats :: KiroAccountStats

text \<open>One call of the API client: the server answers and the request is recorded.\<close>

definition http :: "('b \<Rightarrow> 'r \<times> 'b) \<Rightarrow> request \<Rightarrow> 'b world \<Rightarrow> 'r \<times> 'b world" where
  "http handler req w =
     (case handler (server w) of
        (r, s') \<Rightarrow> (r, w\<lparr>server := s', effects := effects w @ [Http req]\<rparr>))"

section \<open>The Kiro API module (services/api/kiro.ts)\<close>

definition KIRO_FILE_PREFIXES :: "string list" where
  "KIRO_FILE_PREFIXES = [''kiro-'', ''amazonq-'']"

definition extractIdFromFileName :: "string \<Rightarrow> string" where
  "extractIdFromFileName fname =
     (let baseName = replace_first fname ''.json'' [];
          parts = split_on (CHR ''-'') baseName
      in if length parts \<ge> 3 then join ''-'' (drop 2 parts) else baseName)"

definition isKiroAuthFile :: "string \<Rightarrow> bool" where
  "isKiroAuthFile fname =
     list_ex (\<lambda>p. startsWith (toLowerCase fname) p) KIRO_FILE_PREFIXES"

definition empty_account :: KiroAccountItem where
  "empty_account =
     \<lparr> acc_id = [], email = [], label = None, provider = [], authMethod = [], status = [],
       accessToken = None, refreshToken = None, profileArn = None, expiresAt = None,
       clientId = None, clientSecret = None, clientIdHash = None, region = None,
       startUrl = None, usageData = None, createdAt = None, updatedAt = None,
       lastRefreshedAt = None, fileName = None, filePath = None \<rparr>"

text \<open>The provider and the authentication method \<open>getAccounts\<close> reads off a file name.\<close>

definition listedProvider :: "string \<Rightarrow> string \<times> string" where
  "listedProvider lowerName =
     (if startsWith lowerName ''kiro-builderid-'' \<or> startsWith lowerName ''amazonq-''
        then (''BuilderId'', ''builder-id'')
      else if startsWith lowerName ''kiro-google-'' then (''Google'', ''social'')
      else if startsWith lowerName ''kiro-github-'' then (''Github'', ''social'')
      else if str_includes lowerName ''idc'' then (''Enterprise'', ''idc'')
      else (''Unknown'', ''social''))"

text \<open>The object \<open>getAccounts\<close> pushes for one file; the fields it does not set stay undefined.\<close>

definition listedAccount :: "AuthFileItem \<Rightarrow> KiroAccountItem" where
  "listedAccount file =
     (case listedProvider (toLowerCase (af_name file)) of
        (prov, method) \<Rightarrow>
          empty_account
            \<lparr> acc_id := replace_first (af_name file) ''.json'' [],
              email := str_or_else (af_email file) (extractIdFromFileName (af_name file)),
              label := af_label file,
              provider := prov,
              authMethod := method,
              status := str_or_else (af_status file) ''unknown'',
              fileName := Some (af_name file) \<rparr>)"

text \<open>The \<open>for\<close> loop of \<open>getAccounts\<close>, with the array it pushes to.\<close>

fun getAccounts_loop :: "AuthFileItem list \<Rightarrow> KiroAccountItem list \<Rightarrow> KiroAccountItem list" where
  "getAccounts_loop [] accounts = accounts"
| "getAccounts_loop (file # rest) accounts =
     (if \<not> isKiroAuthFile (af_name file) then getAccounts_loop rest accounts
      else getAccounts_loop rest (accounts @ [listedAccount file]))"

definition getAccounts ::
  "'b backend \<Rightarrow> 'b world \<Rightarrow> (js_error + KiroAccountItem list) \<times> 'b world" where
  "getAccounts be w =
     (case http (get_auth_files be) GetAuthFiles w of
        (Inl e, w') \<Rightarrow> (Inl e, w')
      | (Inr response, w') \<Rightarrow>
          (let fs = (case response of
                       None \<Rightarrow> []
                     | Some r \<Rightarrow> (case files r of None \<Rightarrow> [] | Some l \<Rightarrow> l))
           in (Inr (getAccounts_loop fs []), w')))"

text \<open>\<open>id.endsWith('.json') ? id : id + '.json'\<close>, as every call taking an id starts.\<close>

definition fileNameOfId :: "string \<Rightarrow> string" where
  "fileNameOfId i = (if endsWith i ''.json'' then i else i @ ''.json'')"

definition deleteAccount :: "'b backend \<Rightarrow> string \<Rightarrow> 'b world \<Rightarrow> (js_error + unit) \<times> 'b world" where
  "deleteAccount be i w =
     (let fname = fileNameOfId i
      in http (delete_auth_file be fname) (DeleteAuthFile fname) w)"

record DeleteAccountsResult =
  d_success :: bool
  deleted :: "string list"
  errors :: "string list"

fun deleteAccounts_loop ::
  "'b backend \<Rightarrow> string list \<Rightarrow> string list \<Rightarrow> string list \<Rightarrow> 'b world \<Rightarrow>
   (string list \<times> string list) \<times> 'b world" where
  "deleteAccounts_loop be [] del errs w = ((del, errs), w)"
| "deleteAccounts_loop be (i # ids) del errs w =
     (case deleteAccount be i w of
        (Inr u, w') \<Rightarrow> deleteAccounts_loop be ids (del @ [i]) errs w'
      | (Inl e, w') \<Rightarrow> deleteAccounts_loop be ids del (errs @ [i]) w')"

definition deleteAccounts ::
  "'b backend \<Rightarrow> string list \<Rightarrow> 'b world \<Rightarrow> DeleteAccountsResult \<times> 'b world" where
  "deleteAccounts be ids w =
     (case deleteAccounts_loop be ids [] [] w of
        ((del, errs), w') \<Rightarrow>
          (\<lparr> d_success = (length errs = 0), deleted = del, errors = errs \<rparr>, w'))"

text \<open>The provider and the authentication method \<open>parseKiroAuthFile\<close> reads off a file.\<close>

definition parsedProvider :: "string \<Rightarrow> AuthFileContent \<Rightarrow> string \<times> string" where
  "parsedProvider fname content =
     (if startsWith fname ''kiro-aws-'' \<or> startsWith fname ''amazonq-''
        then (''BuilderId'', ''builder-id'')
      else if startsWith fname ''kiro-google-'' then (''Google'', ''social'')
      else if startsWith fname ''kiro-github-'' then (''Github'', ''social'')
      else if str_includes fname ''idc'' \<or> str_or (c_startUrl content) None \<noteq> None
        then (''Enterprise'', ''idc'')
      else (''Unknown'', ''social''))"

definition parsedStatus :: "runtime \<Rightarrow> AuthFileContent \<Rightarrow> string" where
  "parsedStatus rt content =
     (case str_or (c_accessToken content) (c_access_token content) of
        None \<Rightarrow> ''unknown''
      | Some tok \<Rightarrow>
          if tok = [] then ''unknown''
          else (case str_or (c_expiresAt content) (c_expires_at content) of
                  None \<Rightarrow> ''active''
                | Some expiresAtStr \<Rightarrow>
                    if expiresAtStr = [] then ''active''
                    else (case Date_parse rt expiresAtStr of
                            None \<Rightarrow> ''expired''
                          | Some expiry \<Rightarrow>
                              if expiry > Date_now rt then ''active'' else ''expired'')))"

definition meta :: "AuthFileContent \<Rightarrow> (AuthFileMetadata \<Rightarrow> string option) \<Rightarrow> string option" where
  "meta content field = (case c_metadata content of None \<Rightarrow> None | Some m \<Rightarrow> field m)"

text \<open>
  \<open>parseKiroAuthFile\<close>. Nothing in its \<open>try\<close> block throws on a content of these types, so
  the \<open>null\<close> of its \<open>catch\<close> is never returned; the result is optional as in the source.
\<close>

definition parseKiroAuthFile :: "runtime \<Rightarrow> string \<Rightarrow> AuthFileContent \<Rightarrow> KiroAccountItem option" where
  "parseKiroAuthFile rt fname content =
     (case parsedProvider fname content of
        (prov, method) \<Rightarrow>
          Some \<lparr> acc_id = replace_first fname ''.json'' [],
                 email = (case str_or (c_email content) (meta content m_email) of
                            None \<Rightarrow> extractIdFromFileName fname
                          | Some e \<Rightarrow> if e = [] then extractIdFromFileName fname else e),
                 label = str_or (c_label content) (meta content m_label),
                 provider = prov,
                 authMethod = method,
                 status = parsedStatus rt content,
                 accessToken = str_or (c_accessToken content) (c_access_token content),
                 refreshToken = str_or (c_refreshToken content) (c_refresh_token content),
                 profileArn = str_or (c_profileArn content) (meta content m_profileArn),
                 expiresAt = str_or (c_expiresAt content) (c_expires_at content),
                 clientId = str_or (c_clientId content) (c_client_id content),
                 clientSecret = str_or (c_clientSecret content) (c_client_secret content),
                 clientIdHash = c_clientIdHash content,
                 region = str_or (c_region content) (meta content m_region),
                 startUrl = str_or (c_startUrl content) (meta content m_startUrl),
                 usageData = (case c_usageData content of
                                Some u \<Rightarrow> Some u
                              | None \<Rightarrow> c_usage content),
                 createdAt = str_or (c_createdAt content) (meta content m_createdAt),
                 updatedAt = str_or (c_updatedAt content) (meta content m_updatedAt),
                 lastRefreshedAt = str_or (c_lastRefreshedAt content) (c_last_refresh content),
                 fileName = Some fname,
                 filePath = c_filePath content \<rparr>)"

definition empty_content :: AuthFileContent where
  "empty_content =
     \<lparr> c_accessToken = None, c_access_token = None, c_expiresAt = None, c_expires_at = None,
       c_usageData = None, c_usage = None, c_email = None, c_metadata = None, c_label = None,
       c_refreshToken = None, c_refresh_token = None, c_profileArn = None, c_clientId = None,
       c_client_id = None, c_clientSecret = None, c_client_secret = None,
       c_clientIdHash = None, c_region = None, c_startUrl = None, c_createdAt = None,
       c_updatedAt = None, c_lastRefreshedAt = None, c_last_refresh = None,
       c_filePath = None \<rparr>"

record KiroRefreshResponse =
  r_success :: bool
  r_account :: "KiroAccountItem option"
  r_error :: "string option"

definition refreshAccount ::
  "'b backend \<Rightarrow> runtime \<Rightarrow> string \<Rightarrow> 'b world \<Rightarrow> KiroRefreshResponse \<times> 'b world" where
  "refreshAccount be rt i w =
     (let fname = fileNameOfId i
      in case http (get_auth_file be fname) (GetAuthFile fname) w of
           (Inr content, w') \<Rightarrow>
             (\<lparr> r_success = True,
                r_account = parseKiroAuthFile rt fname
                              (case content of None \<Rightarrow> empty_content | Some c \<Rightarrow> c),
                r_error = None \<rparr>, w')
         | (Inl e, w') \<Rightarrow>
             (\<lparr> r_success = False, r_account = None,
                r_error = Some (String_of_error e) \<rparr>, w'))"

record RefreshAllResult =
  ra_success :: nat
  ra_failed :: nat
  ra_accounts :: "KiroAccountItem list"

text \<open>The \<open>for\<close> loop of \<open>refreshAllAccounts\<close>, with its two counters and its array.\<close>

fun refreshAll_loop ::
  "'b backend \<Rightarrow> runtime \<Rightarrow> KiroAccountItem list \<Rightarrow> nat \<Rightarrow> nat \<Rightarrow> KiroAccountItem list \<Rightarrow>
   'b world \<Rightarrow> RefreshAllResult \<times> 'b world" where
  "refreshAll_loop be rt [] success failed refreshedAccounts w =
     (\<lparr> ra_success = success, ra_failed = failed, ra_accounts = refreshedAccounts \<rparr>, w)"
| "refreshAll_loop be rt (account # rest) success failed refreshedAccounts w =
     (case refreshAccount be rt (acc_id account) w of
        (result, w') \<Rightarrow>
          (case (if r_success result then r_account result else None) of
             Some a \<Rightarrow> refreshAll_loop be rt rest (success + 1) failed (refreshedAccounts @ [a]) w'
           | None \<Rightarrow>
               refreshAll_loop be rt rest success (failed + 1) (refreshedAccounts @ [account]) w'))"

definition refreshAllAccounts ::
  "'b backend \<Rightarrow> runtime \<Rightarrow> 'b world \<Rightarrow> (js_error + RefreshAllResult) \<times> 'b world" where
  "refreshAllAccounts be rt w =
     (case getAccounts be w of
        (Inl e, w') \<Rightarrow> (Inl e, w')
      | (Inr accounts, w') \<Rightarrow>
          (case refreshAll_loop be rt accounts 0 0 [] w' of (r, w'') \<Rightarrow> (Inr r, w'')))"

section \<open>The Kiro page (pages/KiroPage.tsx)\<close>

definition emptyStats :: KiroAccountStats where
  "emptyStats =
     \<lparr> total = 0, active = 0, banned = 0, expired = 0, proPlus = 0, pro = 0, free = 0,
       totalQuota = 0, totalUsed = 0, usagePercent = 0, remaining = 0 \<rparr>"

definition CACHE_KEY :: string where
  "CACHE_KEY = ''kiro_accounts_cache''"

text \<open>
  \<open>loadCacheFromStorage\<close>: an absent or empty item, and any exception of \<open>JSON.parse\<close>, give
  the empty cache.
\<close>

definition loadCacheFromStorage :: "runtime \<Rightarrow> Storage \<Rightarrow> KiroAccountItem list \<times> KiroAccountStats" where
  "loadCacheFromStorage rt st =
     (case getItem st CACHE_KEY of
        None \<Rightarrow> ([], emptyStats)
      | Some raw \<Rightarrow>
          if raw = [] then ([], emptyStats)
          else (case JSON_parse rt raw of
                  None \<Rightarrow> ([], emptyStats)
                | Some accounts \<Rightarrow> (accounts, calcAccountStats accounts)))"

text \<open>\<open>saveCacheToStorage\<close>: an exception of \<open>JSON.stringify\<close> or of \<open>setItem\<close> is swallowed.\<close>

definition saveCacheToStorage :: "runtime \<Rightarrow> KiroAccountItem list \<Rightarrow> Storage \<Rightarrow> Storage" where
  "saveCacheToStorage rt accounts st =
     (case JSON_stringify rt accounts of
        None \<Rightarrow> st
      | Some text \<Rightarrow> (case setItem st CACHE_KEY text of Inl e \<Rightarrow> st | Inr st' \<Rightarrow> st'))"

text \<open>
  \<open>updateCache\<close> sets the module variables, writes the storage and sets the React state
  (\<open>setAccounts\<close>, \<open>setStats\<close>); the update is recorded in \<open>effects\<close>.
\<close>

definition updateCache :: "runtime \<Rightarrow> KiroAccountItem list \<Rightarrow> 'b world \<Rightarrow> 'b world" where
  "updateCache rt newAccounts w =
     w\<lparr> cachedAccounts := newAccounts,
        cachedStats := calcAccountStats newAccounts,
        localStorage := saveCacheToStorage rt newAccounts (localStorage w),
        ui_accounts := newAccounts,
        ui_stats := calcAccountStats newAccounts,
        effects := effects w @ [CacheUpdate newAccounts] \<rparr>"

definition BATCH_SIZE :: nat where
  "BATCH_SIZE = 10"

text \<open>
  What the callback of one account does once \<open>getKiroUsage\<close> has answered (\<open>Inl\<close>: the call
  threw, which the callback swallows). The index is that of the account in the input list,
  so it is always within \<open>results\<close>.
\<close>

definition applyUsage ::
  "nat \<Rightarrow> js_error + KiroUsageResponse \<Rightarrow> KiroAccountItem list \<Rightarrow> KiroAccountItem list" where
  "applyUsage idx outcome results =
     (case outcome of
        Inl e \<Rightarrow> results
      | Inr usage \<Rightarrow>
          if ur_status usage = ''ok'' then
            results[idx := (results ! idx)
              \<lparr> status := ''active'',
                usageData := Some
                  \<lparr> usageBreakdownList = Some
                      [\<lparr> currentUsage = Some (nullish_or (current_usage usage) 0),
                         usageLimit = Some (nullish_or (usage_limit usage) 0),
                         bd_nextDateReset = None, overageRate = None,
                         freeTrialInfo = None, bonuses = None \<rparr>],
                    usageBreakdown = None,
                    subscriptionInfo = Some
                      \<lparr> sub_type = ''subscription'',
                        subscriptionTitle = nullish_or (subscription_title usage) ''Free'',
                        overageCapability = None, upgradeCapability = None \<rparr>,
                    userInfo = None, overageConfiguration = None, daysUntilReset = None,
                    nextDateReset = None \<rparr> \<rparr>]
          else if ur_status usage = ''banned'' then
            results[idx := (results ! idx)\<lparr> status := ''banned'' \<rparr>]
          else if ur_status usage = ''expired'' \<or>
                  (case ur_error usage of None \<Rightarrow> False | Some e \<Rightarrow> str_includes e ''expired'') then
            results[idx := (results ! idx)\<lparr> status := ''expired'' \<rparr>]
          else results)"

text \<open>
  \<open>batch.map(async ...)\<close>: each callback runs up to its \<open>await\<close>, so the requests of a
  batch go out in batch order, one for each account with a file name; the server answers
  them in that order. The result pairs each answer with the index of its account.
\<close>

fun issueBatch ::
  "'b backend \<Rightarrow> nat \<Rightarrow> KiroAccountItem list \<Rightarrow> 'b world \<Rightarrow>
   (nat \<times> (js_error + KiroUsageResponse)) list \<times> 'b world" where
  "issueBatch be idx [] w = ([], w)"
| "issueBatch be idx (account # rest) w =
     (case str_or (fileName account) None of
        None \<Rightarrow> issueBatch be (idx + 1) rest w
      | Some fname \<Rightarrow>
          (case http (get_kiro_usage be fname) (GetKiroUsage fname) w of
             (outcome, w') \<Rightarrow>
               (case issueBatch be (idx + 1) rest w' of
                  (pending, w'') \<Rightarrow> ((idx, outcome) # pending, w''))))"

text \<open>
  \<open>await Promise.allSettled(promises)\<close>: the callbacks finish in the order \<open>arrival\<close> in which
  the answers come back, which the page does not control.
\<close>

definition settleBatch ::
  "((nat \<times> (js_error + KiroUsageResponse)) list \<Rightarrow> (nat \<times> (js_error + KiroUsageResponse)) list) \<Rightarrow>
   (nat \<times> (js_error + KiroUsageResponse)) list \<Rightarrow> KiroAccountItem list \<Rightarrow> KiroAccountItem list" where
  "settleBatch arrival pending results =
     fold (\<lambda>(idx, outcome). applyUsage idx outcome) (arrival pending) results"

function fetchUsage_loop ::
  "'b backend \<Rightarrow> runtime \<Rightarrow>
   ((nat \<times> (js_error + KiroUsageResponse)) list \<Rightarrow> (nat \<times> (js_error + KiroUsageResponse)) list) \<Rightarrow>
   KiroAccountItem list \<Rightarrow> nat \<Rightarrow> KiroAccountItem list \<Rightarrow> 'b world \<Rightarrow>
   KiroAccountItem list \<times> 'b world" where
  "fetchUsage_loop be rt arrival accountList i results w =
     (if i < length accountList then
        (case issueBatch be i (take BATCH_SIZE (drop i accountList)) w of
           (pending, w') \<Rightarrow>
             (let results' = settleBatch arrival pending results
              in fetchUsage_loop be rt arrival accountList (i + BATCH_SIZE) results'
                   (updateCache rt results' w')))
      else (results, w))"
  by pat_completeness auto
termination
  by (relation "measure (\<lambda>(be, rt, arrival, accountList, i, results, w). length accountList - i)")
     (auto simp: BATCH_SIZE_def)

declare fetchUsage_loop.simps [simp del]

text \<open>
  \<open>fetchUsageForAccounts\<close> returns nothing; the model returns its local array \<open>results\<close>
  beside the tab, to speak about it.
\<close>

definition fetchUsageForAccounts ::
  "'b backend \<Rightarrow> runtime \<Rightarrow>
   ((nat \<times> (js_error + KiroUsageResponse)) list \<Rightarrow> (nat \<times> (js_error + KiroUsageResponse)) list) \<Rightarrow>
   KiroAccountItem list \<Rightarrow> 'b world \<Rightarrow> KiroAccountItem list \<times> 'b world" where
  "fetchUsageForAccounts be rt arrival accountList w =
     fetchUsage_loop be rt arrival accountList 0 accountList w"

section \<open>The import modal (components/kiro/KiroImportModal.tsx)\<close>

text \<open>
  A value of \<open>JSON.parse\<close>. The members of an object have distinct keys. \<open>JSON.parse\<close> itself
  is a parameter of \<open>parseJson\<close>: \<open>None\<close> when it throws.
\<close>

datatype json =
    JNull
  | JBool bool
  | JNum real
  | JStr string
  | JArr "json list"
  | JObj "(string \<times> json) list"

text \<open>Reading a property: a \<open>TypeError\<close> on \<open>null\<close>, \<open>undefined\<close> where there is none.\<close>

definition get_prop :: "json \<Rightarrow> string \<Rightarrow> js_error + json option" where
  "get_prop v k =
     (case v of
        JNull \<Rightarrow> Inl TypeError
      | JObj members \<Rightarrow> Inr (map_of members k)
      | _ \<Rightarrow> Inr None)"

definition truthy :: "json option \<Rightarrow> bool" where
  "truthy v =
     (case v of
        None \<Rightarrow> False
      | Some JNull \<Rightarrow> False
      | Some (JBool b) \<Rightarrow> b
      | Some (JNum n) \<Rightarrow> n \<noteq> 0
      | Some (JStr s) \<Rightarrow> s \<noteq> []
      | Some _ \<Rightarrow> True)"

text \<open>
  The white space and line terminators of JavaScript, in UTF-8: U+0009 to U+000D, U+0020,
  U+00A0, U+1680, U+2000 to U+200A, U+2028, U+2029, U+202F, U+205F, U+3000 and U+FEFF.
  \<open>trim\<close> removes them from both ends.
\<close>

definition WHITE_SPACE :: "string list" where
  "WHITE_SPACE =
     [[CHR 0x09], [CHR 0x0A], [CHR 0x0B], [CHR 0x0C], [CHR 0x0D], [CHR 0x20],
      [CHR 0xC2, CHR 0xA0],
      [CHR 0xE1, CHR 0x9A, CHR 0x80],
      [CHR 0xE2, CHR 0x80, CHR 0x80], [CHR 0xE2, CHR 0x80, CHR 0x81],
      [CHR 0xE2, CHR 0x80, CHR 0x82], [CHR 0xE2, CHR 0x80, CHR 0x83],
      [CHR 0xE2, CHR 0x80, CHR 0x84], [CHR 0xE2, CHR 0x80, CHR 0x85],
      [CHR 0xE2, CHR 0x80, CHR 0x86], [CHR 0xE2, CHR 0x80, CHR 0x87],
      [CHR 0xE2, CHR 0x80, CHR 0x88], [CHR 0xE2, CHR 0x80, CHR 0x89],
      [CHR 0xE2, CHR 0x80, CHR 0x8A],
      [CHR 0xE2, CHR 0x80, CHR 0xA8], [CHR 0xE2, CHR 0x80, CHR 0xA9],
      [CHR 0xE2, CHR 0x80, CHR 0xAF],
      [CHR 0xE2, CHR 0x81, CHR 0x9F],
      [CHR 0xE3, CHR 0x80, CHR 0x80],
      [CHR 0xEF, CHR 0xBB, CHR 0xBF]]"

definition space_at_start :: "string \<Rightarrow> nat" where
  "space_at_start s =
     (case find (\<lambda>sp. prefix sp s) WHITE_SPACE of None \<Rightarrow> 0 | Some sp \<Rightarrow> length sp)"

definition space_at_end :: "string \<Rightarrow> nat" where
  "space_at_end s =
     (case find (\<lambda>sp. suffix sp s) WHITE_SPACE of None \<Rightarrow> 0 | Some sp \<Rightarrow> length sp)"

function trimStart :: "string \<Rightarrow> string" where
  "trimStart s =
     (if s = [] \<or> space_at_start s = 0 then s else trimStart (drop (space_at_start s) s))"
  by pat_completeness auto
termination
  by (relation "measure length") auto

function trimEnd :: "string \<Rightarrow> string" where
  "trimEnd s =
     (if s = [] \<or> space_at_end s = 0 then s
      else trimEnd (take (length s - space_at_end s) s))"
  by pat_completeness auto
termination
  by (relation "measure length") auto

declare trimStart.simps [simp del] trimEnd.simps [simp del]

definition trim :: "string \<Rightarrow> string" where
  "trim s = trimEnd (trimStart s)"

text \<open>The decimal digits of a number, for the template string \<open>#${index + 1}\<close>.\<close>

fun show_nat :: "nat \<Rightarrow> string" where
  "show_nat n =
     (if n < 10 then [''0123456789'' ! n]
      else show_nat (n div 10) @ [''0123456789'' ! (n mod 10)])"

record InvalidEntry =
  inv_index :: int
  inv_reason :: string
  inv_email :: "json option"

record ParseResult =
  valid :: "json list"
  invalid :: "InvalidEntry list"

text \<open>
  The callback of \<open>accounts.forEach\<close>. \<open>startsWith\<close> exists on strings only: calling it on
  any other truthy value is a \<open>TypeError\<close>.
\<close>

definition classifyAccount :: "json \<Rightarrow> nat \<Rightarrow> ParseResult \<Rightarrow> js_error + ParseResult" where
  "classifyAccount account index r =
     (case get_prop account ''email'' of
        Inl e \<Rightarrow> Inl e
      | Inr em \<Rightarrow>
          (let mail = (if truthy em then em else Some (JStr (''#'' @ show_nat (index + 1))))
           in case get_prop account ''refreshToken'' of
                Inl e \<Rightarrow> Inl e
              | Inr tok \<Rightarrow>
                  if \<not> truthy tok then
                    Inr (r\<lparr> invalid := invalid r @
                           [\<lparr> inv_index = int index, inv_reason = ''Missing refreshToken'',
                              inv_email = mail \<rparr>] \<rparr>)
                  else (case tok of
                          Some (JStr s) \<Rightarrow>
                            if \<not> startsWith s ''aor'' then
                              Inr (r\<lparr> invalid := invalid r @
                                     [\<lparr> inv_index = int index,
                                        inv_reason = ''Invalid refreshToken'',
                                        inv_email = mail \<rparr>] \<rparr>)
                            else Inr (r\<lparr> valid := valid r @ [account] \<rparr>)
                        | _ \<Rightarrow> Inl TypeError)))"

fun forEachAccount :: "json list \<Rightarrow> nat \<Rightarrow> ParseResult \<Rightarrow> js_error + ParseResult" where
  "forEachAccount [] index r = Inr r"
| "forEachAccount (account # rest) index r =
     (case classifyAccount account index r of
        Inl e \<Rightarrow> Inl e
      | Inr r' \<Rightarrow> forEachAccount rest (index + 1) r')"

text \<open>What the \<open>catch\<close> of \<open>parseJson\<close> returns.\<close>

definition invalidJson :: ParseResult where
  "invalidJson =
     \<lparr> valid = [],
       invalid = [\<lparr> inv_index = - 1, inv_reason = ''Invalid JSON format'', inv_email = None \<rparr>] \<rparr>"

text \<open>\<open>parseJson\<close>; \<open>None\<close> is its \<open>null\<close>.\<close>

definition parseJson :: "(string \<Rightarrow> json option) \<Rightarrow> string \<Rightarrow> ParseResult option" where
  "parseJson JSON_parse_any text =
     (if trim text = [] then None
      else (case JSON_parse_any text of
              None \<Rightarrow> Some invalidJson
            | Some data \<Rightarrow>
                (let accounts = (case data of JArr xs \<Rightarrow> xs | _ \<Rightarrow> [data])
                 in case forEachAccount accounts 0 \<lparr> valid = [], invalid = [] \<rparr> of
                      Inl e \<Rightarrow> Some invalidJson
                    | Inr r \<Rightarrow> Some r)))"

section \<open>OAuth polling (pages/OAuthPage.tsx)\<close>

text \<open>
  The page and the window as a state machine. \<open>timers\<close> is the page's registry
  \<open>timers.current\<close>; \<open>intervals\<close> are the interval timers of the window that have not been
  cleared; \<open>pollers\<close> keeps what the callback of each timer closes over; \<open>in_flight\<close> holds one
  entry for each callback that has sent its status request and awaits the answer. Timer ids
  are positive, as \<open>setInterval\<close> returns them.
\<close>

record poller =
  p_key :: string
  p_state :: string
  p_delay :: nat
  p_kiro :: bool

record provider_view =
  v_status :: string
  v_polling :: bool
  v_error :: "string option"
  v_authUrl :: "string option"
  v_verificationUrl :: "string option"
  v_userCode :: "string option"

record AuthStatusResponse =
  as_status :: string
  as_error :: "string option"
  as_url :: "string option"
  as_verification_url :: "string option"
  as_user_code :: "string option"

record oauth_page =
  timers :: "string \<rightharpoonup> nat"
  intervals :: "nat list"
  pollers :: "nat \<rightharpoonup> poller"
  authUrlOpened :: "nat \<Rightarrow> bool"
  in_flight :: "nat list"
  next_timer :: nat
  views :: "string \<rightharpoonup> provider_view"
  opened :: "string list"

definition idle_view :: provider_view where
  "idle_view =
     \<lparr> v_status = ''idle'', v_polling = False, v_error = None, v_authUrl = None,
       v_verificationUrl = None, v_userCode = None \<rparr>"

definition init_page :: oauth_page where
  "init_page =
     \<lparr> timers = Map.empty, intervals = [], pollers = Map.empty, authUrlOpened = (\<lambda>t. False),
       in_flight = [], next_timer = 1, views = Map.empty, opened = [] \<rparr>"

definition clearInterval :: "nat \<Rightarrow> oauth_page \<Rightarrow> oauth_page" where
  "clearInterval t pg = pg\<lparr> intervals := removeAll t (intervals pg) \<rparr>"

definition setInterval :: "poller \<Rightarrow> oauth_page \<Rightarrow> nat \<times> oauth_page" where
  "setInterval pl pg =
     (let t = next_timer pg
      in (t, pg\<lparr> intervals := intervals pg @ [t], pollers := (pollers pg)(t \<mapsto> pl),
                 next_timer := t + 1 \<rparr>))"

text \<open>\<open>updateProviderState\<close> and \<open>setKiroState((prev) => ...)\<close>.\<close>

definition updateView :: "string \<Rightarrow> (provider_view \<Rightarrow> provider_view) \<Rightarrow> oauth_page \<Rightarrow> oauth_page" where
  "updateView k f pg =
     pg\<lparr> views := (views pg)(k \<mapsto> f (case views pg k of None \<Rightarrow> idle_view | Some v \<Rightarrow> v)) \<rparr>"

text \<open>The first lines of \<open>startPolling\<close> and \<open>startKiroPolling\<close>, and their last one.\<close>

definition installPoller :: "poller \<Rightarrow> oauth_page \<Rightarrow> oauth_page" where
  "installPoller pl pg =
     (let pg1 = (case timers pg (p_key pl) of
                   None \<Rightarrow> pg
                 | Some old \<Rightarrow> if old \<noteq> 0 then clearInterval old pg else pg)
      in case setInterval pl pg1 of
           (timer, pg2) \<Rightarrow> pg2\<lparr> timers := (timers pg2)(p_key pl \<mapsto> timer) \<rparr>)"

definition startPolling :: "string \<Rightarrow> string \<Rightarrow> oauth_page \<Rightarrow> oauth_page" where
  "startPolling prov st pg =
     installPoller \<lparr> p_key = prov, p_state = st, p_delay = 3000, p_kiro = False \<rparr> pg"

definition startKiroPolling :: "string \<Rightarrow> oauth_page \<Rightarrow> oauth_page" where
  "startKiroPolling stateParam pg =
     installPoller \<lparr> p_key = ''kiro'', p_state = stateParam, p_delay = 3000, p_kiro = True \<rparr> pg"

text \<open>\<open>window.clearInterval(timer); delete timers.current[key]\<close>, as every final branch ends.\<close>

definition stopPolling :: "nat \<Rightarrow> string \<Rightarrow> oauth_page \<Rightarrow> oauth_page" where
  "stopPolling timer k pg = (clearInterval timer pg)\<lparr> timers := (timers pg)(k := None) \<rparr>"

text \<open>
  The callback of \<open>startPolling\<close> after its \<open>await\<close>. \<open>Inl\<close>: the status request threw, with
  \<open>err?.message\<close> as its argument.
\<close>

definition pollCallback ::
  "nat \<Rightarrow> poller \<Rightarrow> string option + AuthStatusResponse \<Rightarrow> oauth_page \<Rightarrow> oauth_page" where
  "pollCallback timer pl reply pg =
     (case reply of
        Inl message \<Rightarrow>
          stopPolling timer (p_key pl)
            (updateView (p_key pl)
               (\<lambda>v. v\<lparr> v_status := ''error'', v_error := message,
                        v_polling := False \<rparr>) pg)
      | Inr res \<Rightarrow>
          if as_status res = ''ok'' then
            stopPolling timer (p_key pl)
              (updateView (p_key pl) (\<lambda>v. v\<lparr> v_status := ''success'', v_polling := False \<rparr>) pg)
          else if as_status res = ''error'' then
            stopPolling timer (p_key pl)
              (updateView (p_key pl)
                 (\<lambda>v. v\<lparr> v_status := ''error'', v_error := as_error res,
                          v_polling := False \<rparr>) pg)
          else pg)"

definition openAuthUrl :: "nat \<Rightarrow> string \<Rightarrow> oauth_page \<Rightarrow> oauth_page" where
  "openAuthUrl timer url pg =
     (if authUrlOpened pg timer then pg
      else (updateView ''kiro'' (\<lambda>v. v\<lparr> v_status := ''auth_url'', v_authUrl := Some url \<rparr>) pg)
             \<lparr> authUrlOpened := (authUrlOpened pg)(timer := True),
               opened := opened pg @ [url] \<rparr>)"

text \<open>The callback of \<open>startKiroPolling\<close> after its \<open>await\<close>.\<close>

definition kiroCallback ::
  "nat \<Rightarrow> poller \<Rightarrow> string option + AuthStatusResponse \<Rightarrow> oauth_page \<Rightarrow> oauth_page" where
  "kiroCallback timer pl reply pg =
     (case reply of
        Inl message \<Rightarrow>
          stopPolling timer ''kiro''
            (updateView ''kiro''
               (\<lambda>v. v\<lparr> v_status := ''error'', v_error := message,
                        v_polling := False \<rparr>) pg)
      | Inr res \<Rightarrow>
          if as_status res = ''ok'' then
            stopPolling timer ''kiro''
              (updateView ''kiro'' (\<lambda>v. v\<lparr> v_status := ''success'', v_polling := False \<rparr>) pg)
          else if as_status res = ''device_code'' then
            updateView ''kiro''
              (\<lambda>v. v\<lparr> v_status := ''device_code'',
                       v_verificationUrl := as_verification_url res,
                       v_userCode := as_user_code res \<rparr>) pg
          else if as_status res = ''auth_url'' \<and> str_or (as_url res) None \<noteq> None then
            openAuthUrl timer (str_or_else (as_url res) []) pg
          else if as_status res = ''error'' then
            (let errorStr = str_or_else (as_error res) []
             in if startsWith errorStr ''auth_url|'' then
                  openAuthUrl timer (drop (length ''auth_url|'') errorStr) pg
                else
                  stopPolling timer ''kiro''
                    (updateView ''kiro''
                       (\<lambda>v. v\<lparr> v_status := ''error'', v_error := as_error res,
                                v_polling := False \<rparr>) pg))
          else pg)"

text \<open>
  What can happen to the page: a polling is started, an interval timer fires (its callback
  sends the status request), or the answer to a request arrives and the callback goes on.
  A cleared timer does not fire; an answer needs a callback that awaits it.
\<close>

datatype event =
    StartPolling string string
  | StartKiroPolling string
  | Tick nat
  | Reply nat "string option + AuthStatusResponse"

definition step :: "event \<Rightarrow> oauth_page \<Rightarrow> oauth_page" where
  "step ev pg =
     (case ev of
        StartPolling prov st \<Rightarrow> startPolling prov st pg
      | StartKiroPolling st \<Rightarrow> startKiroPolling st pg
      | Tick t \<Rightarrow>
          if List.member (intervals pg) t then pg\<lparr> in_flight := in_flight pg @ [t] \<rparr> else pg
      | Reply t reply \<Rightarrow>
          if \<not> List.member (in_flight pg) t then pg
          else (case pollers pg t of
                  None \<Rightarrow> pg
                | Some pl \<Rightarrow>
                    (if p_kiro pl then kiroCallback t pl reply
                     else pollCallback t pl reply)
                      (pg\<lparr> in_flight := remove1 t (in_flight pg) \<rparr>)))"

definition run :: "event list \<Rightarrow> oauth_page \<Rightarrow> oauth_page" where
  "run evs pg = fold step evs pg"

section \<open>Notions used to state the properties\<close>

text \<open>A file name without its \<open>.json\<close> suffix.\<close>

definition stripJsonSuffix :: "string \<Rightarrow> string" where
  "stripJsonSuffix fname =
     (if endsWith fname ''.json'' then take (length fname - length ''.json'') fname else fname)"

text \<open>The answers of \<open>refreshAccount\<close> to the accounts of a list, asked one after the other.\<close>

fun refreshEach ::
  "'b backend \<Rightarrow> runtime \<Rightarrow> KiroAccountItem list \<Rightarrow> 'b world \<Rightarrow> KiroRefreshResponse list" where
  "refreshEach be rt [] w = []"
| "refreshEach be rt (account # rest) w =
     (case refreshAccount be rt (acc_id account) w of
        (result, w') \<Rightarrow> result # refreshEach be rt rest w')"

definition refreshOk :: "KiroRefreshResponse \<Rightarrow> bool" where
  "refreshOk result = (r_success result \<and> r_account result \<noteq> None)"

text \<open>The re-read record of a refresh that succeeded, the listed record otherwise.\<close>

definition refreshedOr :: "KiroAccountItem \<Rightarrow> KiroRefreshResponse \<Rightarrow> KiroAccountItem" where
  "refreshedOr account result =
     (case (if r_success result then r_account result else None) of
        Some a \<Rightarrow> a
      | None \<Rightarrow> account)"

text \<open>Consecutive pieces of \<open>k\<close> elements, the last one possibly shorter.\<close>

function chunks :: "nat \<Rightarrow> 'a list \<Rightarrow> 'a list list" where
  "chunks k xs = (if k = 0 \<or> xs = [] then [] else take k xs # chunks k (drop k xs))"
  by pat_completeness auto
termination
  by (relation "measure (\<lambda>(k, xs). length xs)") auto

declare chunks.simps [simp del]

text \<open>The file names a batch asks the usage of.\<close>

definition requested :: "KiroAccountItem list \<Rightarrow> string list" where
  "requested batch = List.map_filter (\<lambda>a. str_or (fileName a) None) batch"

text \<open>What one batch leaves in the effects: its requests, then one cache update.\<close>

definition batchEffects :: "KiroAccountItem list \<Rightarrow> KiroAccountItem list \<Rightarrow> effect list" where
  "batchEffects batch snap =
     map (\<lambda>n. Http (GetKiroUsage n)) (requested batch) @ [CacheUpdate snap]"

text \<open>Two records of one account: they differ in \<open>status\<close> and \<open>usageData\<close> at most.\<close>

definition sameAccount :: "KiroAccountItem \<Rightarrow> KiroAccountItem \<Rightarrow> bool" where
  "sameAccount a b = (b\<lparr> status := status a, usageData := usageData a \<rparr> = a)"

text \<open>An account list is serializable when \<open>JSON.parse\<close> gives it back from its JSON text.\<close>

definition serializable :: "runtime \<Rightarrow> KiroAccountItem list \<Rightarrow> bool" where
  "serializable rt accounts =
     (case JSON_stringify rt accounts of
        None \<Rightarrow> False
      | Some text \<Rightarrow> text \<noteq> [] \<and> JSON_parse rt text = Some accounts)"

text \<open>The browser accepts the write of the JSON text of an account list under the cache key.\<close>

definition writeAccepted :: "runtime \<Rightarrow> Storage \<Rightarrow> KiroAccountItem list \<Rightarrow> bool" where
  "writeAccepted rt st accounts =
     (case JSON_stringify rt accounts of
        None \<Rightarrow> False
      | Some text \<Rightarrow> accepts st CACHE_KEY text)"

text \<open>The entries \<open>parseJson\<close> goes through, and how the source classifies one.\<close>

definition entries :: "json \<Rightarrow> json list" where
  "entries data = (case data of JArr xs \<Rightarrow> xs | _ \<Rightarrow> [data])"

definition tokenOf :: "json \<Rightarrow> json option" where
  "tokenOf account = (case account of JObj members \<Rightarrow> map_of members ''refreshToken'' | _ \<Rightarrow> None)"

definition classifiable :: "json \<Rightarrow> bool" where
  "classifiable account =
     (account \<noteq> JNull \<and>
      (case tokenOf account of Some (JStr s) \<Rightarrow> True | tok \<Rightarrow> \<not> truthy tok))"

definition validEntry :: "json \<Rightarrow> bool" where
  "validEntry account =
     (case tokenOf account of Some (JStr s) \<Rightarrow> prefix ''aor'' s | _ \<Rightarrow> False)"

definition reasonOf :: "json \<Rightarrow> string" where
  "reasonOf account =
     (if truthy (tokenOf account) then ''Invalid refreshToken'' else ''Missing refreshToken'')"

text \<open>The timers of the window that poll for one key.\<close>

definition activeFor :: "string \<Rightarrow> oauth_page \<Rightarrow> nat list" where
  "activeFor k pg =
     filter (\<lambda>t. case pollers pg t of None \<Rightarrow> False | Some pl \<Rightarrow> p_key pl = k) (intervals pg)"

text \<open>
  A page on which every timer of the window is registered under its key, and a run in
  which every answer belongs to a status request of a timer that is still active.
\<close>

definition wf_page :: "oauth_page \<Rightarrow> bool" where
  "wf_page pg =
     (distinct (intervals pg) \<and> 0 < next_timer pg \<and>
      (\<forall>t \<in> set (intervals pg).
         0 < t \<and> t < next_timer pg \<and>
         (\<exists>pl. pollers pg t = Some pl \<and> timers pg (p_key pl) = Some t \<and>
               (p_kiro pl \<longrightarrow> p_key pl = ''kiro''))))"

fun timely :: "event list \<Rightarrow> oauth_page \<Rightarrow> bool" where
  "timely [] pg = True"
| "timely (ev # evs) pg =
     ((case ev of Reply t reply \<Rightarrow> List.member (intervals pg) t | _ \<Rightarrow> True) \<and>
      timely evs (step ev pg))"

section \<open>Concrete inputs\<close>

text \<open>
  A backend whose state is the list of the file names it holds; it does not hand out the
  files whose name contains \<open>locked\<close>.
\<close>

definition demo_file :: "string \<Rightarrow> AuthFileItem" where
  "demo_file n = \<lparr> af_name = n, af_email = None, af_label = None, af_status = None \<rparr>"

definition demo_usage :: KiroUsageResponse where
  "demo_usage =
     \<lparr> ur_status = ''ok'', subscription_title = Some ''KIRO PRO'', current_usage = Some 30,
       usage_limit = Some 50, next_reset = None, ur_error = None \<rparr>"

definition demo_backend :: "string list backend" where
  "demo_backend =
     \<lparr> get_auth_files = (\<lambda>s. (Inr (Some \<lparr> files = Some (map demo_file s) \<rparr>), s)),
       get_auth_file = (\<lambda>n s. (if List.member s n \<and> \<not> str_includes n ''locked''
                                then Inr (Some empty_content)
                                else Inl (RequestFailed ''404''), s)),
       delete_auth_file = (\<lambda>n s. if List.member s n then (Inr (), removeAll n s)
                                   else (Inl (RequestFailed ''404''), s)),
       get_kiro_usage = (\<lambda>n s. (if List.member s n then Inr demo_usage
                                 else Inl (RequestFailed ''404''), s)) \<rparr>"

definition demo_storage :: Storage where
  "demo_storage = \<lparr> items = Map.empty, accepts = (\<lambda>k v. True) \<rparr>"

definition full_storage :: Storage where
  "full_storage = \<lparr> items = Map.empty, accepts = (\<lambda>k v. False) \<rparr>"

definition demo_world :: "string list \<Rightarrow> string list world" where
  "demo_world s =
     \<lparr> server = s, effects = [], localStorage = demo_storage, cachedAccounts = [],
       cachedStats = emptyStats, ui_accounts = [], ui_stats = emptyStats \<rparr>"

definition demo_account :: "string \<Rightarrow> KiroAccountItem" where
  "demo_account n = listedAccount (demo_file n)"

text \<open>A runtime that knows the JSON text of one account list.\<close>

definition demo_runtime :: runtime where
  "demo_runtime =
     \<lparr> JSON_stringify = (\<lambda>l. if l = [demo_account ''kiro-google-a.json''] then Some ''[a]''
                               else if l = [] then Some ''[]'' else None),
       JSON_parse = (\<lambda>t. if t = ''[a]'' then Some [demo_account ''kiro-google-a.json'']
                           else if t = ''[]'' then Some [] else None),
       Date_parse = (\<lambda>t. None),
       Date_now = 0 \<rparr>"

definition demo_used :: "real \<Rightarrow> real \<Rightarrow> string \<Rightarrow> string \<Rightarrow> KiroUsageData" where
  "demo_used u q ty ti =
     \<lparr> usageBreakdownList = Some
         [\<lparr> currentUsage = Some u, usageLimit = Some q, bd_nextDateReset = None,
            overageRate = None, freeTrialInfo = None, bonuses = None \<rparr>],
       usageBreakdown = None,
       subscriptionInfo = Some
         \<lparr> sub_type = ty, subscriptionTitle = ti, overageCapability = None,
           upgradeCapability = None \<rparr>,
       userInfo = None, overageConfiguration = None, daysUntilReset = None, nextDateReset = None \<rparr>"

definition demo_accounts :: "KiroAccountItem list" where
  "demo_accounts =
     [(demo_account ''kiro-google-a.json'')
        \<lparr> status := ''active'', usageData := Some (demo_used 30 50 ''PRO'' ''KIRO PRO'') \<rparr>,
      (demo_account ''kiro-github-b.json'') \<lparr> status := ''banned'' \<rparr>,
      (demo_account ''kiro-google-c.json'')
        \<lparr> status := ''expired'', usageData := Some (demo_used 10 550 ''PRO_PLUS'' ''KIRO PRO+'') \<rparr>]"

text \<open>Twelve listed accounts, of which the backend holds the files of the first eleven.\<close>

definition demo_names :: "string list" where
  "demo_names = map (\<lambda>n. ''kiro-google-'' @ show_nat n @ ''.json'') [1..<13]"

definition demo_list :: "KiroAccountItem list" where
  "demo_list = map demo_account demo_names"

text \<open>A \<open>JSON.parse\<close> that knows a few texts, and throws on every other one.\<close>

definition demo_text :: string where
  \<open>demo_text =
     ''[{"email":"a@x.io","refreshToken":"aorAAA"},{"email":"b@x.io"},{"refreshToken":"xyz"}]''\<close>

definition demo_data :: json where
  "demo_data =
     JArr [JObj [(''email'', JStr ''a@x.io''), (''refreshToken'', JStr ''aorAAA'')],
           JObj [(''email'', JStr ''b@x.io'')],
           JObj [(''refreshToken'', JStr ''xyz'')]]"

definition demo_JSON_parse :: "string \<Rightarrow> json option" where
  \<open>demo_JSON_parse =
     map_of
       [(demo_text, demo_data),
        (''{"refreshToken":"aorBBB"}'', JObj [(''refreshToken'', JStr ''aorBBB'')]),
        (''[null]'', JArr [JNull]),
        (''[{"refreshToken":5}]'', JArr [JObj [(''refreshToken'', JNum 5)]]),
        (''[{"refreshToken":""}]'', JArr [JObj [(''refreshToken'', JStr [])]])]\<close>

text \<open>
  A backend whose state gives the content of each file it holds, and two files of which
  the name of the second is the name of the first followed by \<open>.json\<close>.
\<close>

definition content_backend :: "(string \<times> AuthFileContent) list backend" where
  "content_backend =
     \<lparr> get_auth_files = (\<lambda>s. (Inr (Some \<lparr> files = Some (map (\<lambda>p. demo_file (fst p)) s) \<rparr>), s)),
       get_auth_file = (\<lambda>n s. (case map_of s n of
                                  None \<Rightarrow> Inl (RequestFailed ''404'')
                                | Some c \<Rightarrow> Inr (Some c), s)),
       delete_auth_file = (\<lambda>n s. case map_of s n of
                                   None \<Rightarrow> (Inl (RequestFailed ''404''), s)
                                 | Some c \<Rightarrow> (Inr (), filter (\<lambda>p. fst p \<noteq> n) s)),
       get_kiro_usage = (\<lambda>n s. (case map_of s n of
                                   None \<Rightarrow> Inl (RequestFailed ''404'')
                                 | Some c \<Rightarrow> Inr demo_usage, s)) \<rparr>"

definition twin_files :: "(string \<times> AuthFileContent) list" where
  "twin_files =
     [(''kiro-a.json'', empty_content\<lparr> c_email := Some ''first@x.io'' \<rparr>),
      (''kiro-a.json.json'', empty_content\<lparr> c_email := Some ''second@x.io'' \<rparr>)]"

definition twin_world :: "(string \<times> AuthFileContent) list world" where
  "twin_world =
     \<lparr> server = twin_files, effects = [], localStorage = demo_storage, cachedAccounts = [],
       cachedStats = emptyStats, ui_accounts = [], ui_stats = emptyStats \<rparr>"

text \<open>A text of white space only: U+00A0, a space, U+3000 and a line feed.\<close>

definition blank_text :: string where
  "blank_text = [CHR 0xC2, CHR 0xA0, CHR 0x20, CHR 0xE3, CHR 0x80, CHR 0x80, CHR 0x0A]"

definition error_reply :: "string option + AuthStatusResponse" where
  "error_reply =
     Inr \<lparr> as_status = ''error'', as_error = Some ''timeout'', as_url = None,
           as_verification_url = None, as_user_code = None \<rparr>"

text \<open>
  A provider whose status requests take longer than the polling interval: two callbacks of
  the first timer are in flight; the answer to the first ends the polling, the user starts
  again, the answer to the second arrives, and the user starts once more.
\<close>

definition race_trace :: "event list" where
  "race_trace =
     [StartPolling ''codex'' ''s1'', Tick 1, Tick 1, Reply 1 error_reply,
      StartPolling ''codex'' ''s2'', Reply 1 error_reply, StartPolling ''codex'' ''s3'']"

section \<open>Properties of the statistics\<close>

lemma foldl_plus_sum_list:
  "foldl (\<lambda>s a. s + f a) z xs = (z :: real) + sum_list (map f xs)"
  by (induction xs arbitrary: z) simp_all

text \<open>
  C8. \<open>getUsagePercent\<close> always returns a number and never reaches a division by zero: the
  result is 0 for a zero quota and \<open>min(100, used / quota * 100)\<close> otherwise, and for
  \<open>used \<ge> 0\<close> and \<open>quota > 0\<close> it lies between 0 and 100.
\<close>

theorem getUsagePercent_total:
  "getUsagePercent used quota = Some (if quota = 0 then 0 else min 100 (used / quota * 100)) \<and>
   (0 \<le> used \<and> 0 < quota \<longrightarrow>
      (\<exists>p. getUsagePercent used quota = Some p \<and> 0 \<le> p \<and> p \<le> 100))"
  by (simp add: getUsagePercent_def js_divide_def)

theorem getUsagePercent_total_witness:
  "(0::real) \<le> 30 \<and> (0::real) < 40 \<and> getUsagePercent 30 40 = Some 75 \<and>
   getUsagePercent 50 40 = Some 100 \<and> getUsagePercent 30 0 = Some 0"
  using getUsagePercent_total [of 30 40] getUsagePercent_total [of 50 40]
    getUsagePercent_total [of 30 0]
  by simp

lemma demo_stats:
  "map getQuota demo_accounts = [50, - 1, 550] \<and> map getUsed demo_accounts = [30, - 1, 10] \<and>
   calcAccountStats demo_accounts =
     \<lparr> total = 3, active = 1, banned = 1, expired = 1, proPlus = 1, pro = 1, free = 1,
       totalQuota = 600, totalUsed = 40, usagePercent = 67 / 10, remaining = 560 \<rparr>"
  by code_simp

lemma demo_plans:
  "map isProPlus demo_accounts = [False, False, True] \<and>
   map isPro demo_accounts = [True, False, False]"
  by code_simp

text \<open>
  C9. In the statistics of any account list, \<open>remaining = totalQuota - totalUsed\<close>; both
  totals are (rounded) sums over the accounts whose \<open>getQuota\<close> is at least 0 only, and an
  account adds its \<open>getUsed\<close> to \<open>totalUsed\<close> when that is at least 0, and 0 otherwise.
\<close>

theorem calcAccountStats_remaining:
  "remaining (calcAccountStats accounts) =
     totalQuota (calcAccountStats accounts) - totalUsed (calcAccountStats accounts) \<and>
   totalQuota (calcAccountStats accounts) =
     js_round (sum_list (map getQuota (filter (\<lambda>a. getQuota a \<ge> 0) accounts))) \<and>
   totalUsed (calcAccountStats accounts) =
     js_round (sum_list (map (\<lambda>a. if getUsed a \<ge> 0 then getUsed a else 0)
                             (filter (\<lambda>a. getQuota a \<ge> 0) accounts)))"
  by (simp add: calcAccountStats_def Let_def foldl_plus_sum_list)

theorem calcAccountStats_remaining_witness:
  "map getQuota demo_accounts = [50, - 1, 550] \<and>
   map getUsed demo_accounts = [30, - 1, 10] \<and>
   totalQuota (calcAccountStats demo_accounts) = 600 \<and>
   totalUsed (calcAccountStats demo_accounts) = 40 \<and>
   remaining (calcAccountStats demo_accounts) = 560"
  using calcAccountStats_remaining [of demo_accounts] demo_stats by simp

text \<open>
  C10. No account is both Pro+ and Pro, so the \<open>proPlus\<close> and \<open>pro\<close> counts of
  \<open>calcAccountStats\<close> count disjoint sets of accounts.
\<close>

theorem isPro_excludes_isProPlus:
  "\<not> (isProPlus a \<and> isPro a) \<and>
   filter isPro (filter isProPlus accounts) = [] \<and>
   proPlus (calcAccountStats accounts) + pro (calcAccountStats accounts) =
     length (filter (\<lambda>a. isProPlus a \<or> isPro a) accounts) \<and>
   proPlus (calcAccountStats accounts) + pro (calcAccountStats accounts) \<le>
     total (calcAccountStats accounts)"
proof -
  have excl: "\<And>b. isPro b \<Longrightarrow> \<not> isProPlus b"
    by (simp add: isPro_def split: if_splits)
  have cnt: "length (filter isProPlus xs) + length (filter isPro xs) =
             length (filter (\<lambda>a. isProPlus a \<or> isPro a) xs)" for xs
    by (induction xs) (auto dest: excl)
  have le: "length (filter (\<lambda>a. isProPlus a \<or> isPro a) accounts) \<le> length accounts"
    by (rule length_filter_le)
  have none: "filter isPro (filter isProPlus accounts) = []"
    by (auto simp: filter_empty_conv dest: excl)
  show ?thesis
    using excl [of a] cnt [of accounts] le none
    by (auto simp: calcAccountStats_def Let_def)
qed

theorem isPro_excludes_isProPlus_witness:
  "map isProPlus demo_accounts = [False, False, True] \<and>
   map isPro demo_accounts = [True, False, False] \<and>
   proPlus (calcAccountStats demo_accounts) + pro (calcAccountStats demo_accounts) = 2 \<and>
   total (calcAccountStats demo_accounts) = 3"
  using isPro_excludes_isProPlus [of "demo_accounts ! 0" demo_accounts] demo_plans demo_stats
  by simp

section \<open>Properties of the API module\<close>

subsection \<open>Deleting accounts\<close>

lemma deleteAccounts_loop_effects:
  "effects (snd (deleteAccounts_loop be ids del errs w)) =
     effects w @ map (\<lambda>i. Http (DeleteAuthFile (fileNameOfId i))) ids"
proof (induction ids arbitrary: del errs w)
  case Nil
  show ?case by simp
next
  case (Cons i ids)
  obtain r s' where h: "delete_auth_file be (fileNameOfId i) (server w) = (r, s')"
    by (cases "delete_auth_file be (fileNameOfId i) (server w)")
  show ?case
    by (cases r) (simp_all add: deleteAccount_def http_def h Cons.IH Let_def)
qed

lemma deleteAccounts_loop_split:
  "\<exists>D E. fst (deleteAccounts_loop be ids del errs w) = (del @ D, errs @ E) \<and>
          mset D + mset E = mset ids \<and> subseq D ids \<and> subseq E ids"
proof (induction ids arbitrary: del errs w)
  case Nil
  show ?case by simp
next
  case (Cons i ids)
  obtain r w' where h: "deleteAccount be i w = (r, w')"
    by (cases "deleteAccount be i w")
  show ?case
  proof (cases r)
    case (Inl e)
    from Cons.IH [of del "errs @ [i]" w'] obtain D E where
      "fst (deleteAccounts_loop be ids del (errs @ [i]) w') = (del @ D, (errs @ [i]) @ E)"
      "mset D + mset E = mset ids" "subseq D ids" "subseq E ids" by blast
    then show ?thesis using h Inl
      by - (rule exI [of _ D], rule exI [of _ "i # E"], auto)
  next
    case (Inr u)
    from Cons.IH [of "del @ [i]" errs w'] obtain D E where
      "fst (deleteAccounts_loop be ids (del @ [i]) errs w') = ((del @ [i]) @ D, errs @ E)"
      "mset D + mset E = mset ids" "subseq D ids" "subseq E ids" by blast
    then show ?thesis using h Inr
      by - (rule exI [of _ "i # D"], rule exI [of _ E], auto)
  qed
qed

text \<open>
  C5. \<open>deleteAccounts\<close> sends one delete request for each id, in input order; \<open>deleted\<close>
  and \<open>errors\<close> share out the ids (each occurrence goes to exactly one of them, so for
  distinct ids the two lists are disjoint), each in input order; \<open>success\<close> holds exactly
  when \<open>errors\<close> is empty.
\<close>

theorem deleteAccounts_partition:
  "effects (snd (deleteAccounts be ids w)) =
     effects w @ map (\<lambda>i. Http (DeleteAuthFile (fileNameOfId i))) ids \<and>
   mset (deleted (fst (deleteAccounts be ids w))) + mset (errors (fst (deleteAccounts be ids w))) = mset ids \<and>
   subseq (deleted (fst (deleteAccounts be ids w))) ids \<and>
   subseq (errors (fst (deleteAccounts be ids w))) ids \<and>
   (distinct ids \<longrightarrow>
      set (deleted (fst (deleteAccounts be ids w))) \<inter> set (errors (fst (deleteAccounts be ids w))) = {}) \<and>
   (d_success (fst (deleteAccounts be ids w)) \<longleftrightarrow> errors (fst (deleteAccounts be ids w)) = [])"
proof -
  obtain D E where s: "fst (deleteAccounts_loop be ids [] [] w) = (D, E)"
    and m: "mset D + mset E = mset ids" and sd: "subseq D ids" and se: "subseq E ids"
    using deleteAccounts_loop_split [of be ids "[]" "[]" w] by auto
  obtain w' where l: "deleteAccounts_loop be ids [] [] w = ((D, E), w')"
    using s by (cases "deleteAccounts_loop be ids [] [] w") auto
  have eff: "effects w' = effects w @ map (\<lambda>i. Http (DeleteAuthFile (fileNameOfId i))) ids"
    using deleteAccounts_loop_effects [of be ids "[]" "[]" w] l by simp
  have disj: "set D \<inter> set E = {}" if "distinct ids"
  proof -
    have "mset (D @ E) = mset ids" using m by simp
    then have "distinct (D @ E)"
      using that mset_eq_imp_distinct_iff by blast
    then show ?thesis by simp
  qed
  show ?thesis
    using l m sd se eff disj by (simp add: deleteAccounts_def)
qed

lemma demo_delete:
  "fst (deleteAccounts demo_backend [''kiro-google-a'', ''kiro-google-b'', ''kiro-google-c.json'']
          (demo_world [''kiro-google-a.json'', ''kiro-google-c.json'', ''x.json''])) =
     \<lparr> d_success = False, deleted = [''kiro-google-a'', ''kiro-google-c.json''],
       errors = [''kiro-google-b''] \<rparr>"
  by code_simp

theorem deleteAccounts_partition_witness:
  "distinct [''kiro-google-a'', ''kiro-google-b'', ''kiro-google-c.json''] \<and>
   set (deleted (fst (deleteAccounts demo_backend
          [''kiro-google-a'', ''kiro-google-b'', ''kiro-google-c.json'']
          (demo_world [''kiro-google-a.json'', ''kiro-google-c.json'', ''x.json''])))) \<inter>
   set (errors (fst (deleteAccounts demo_backend
          [''kiro-google-a'', ''kiro-google-b'', ''kiro-google-c.json'']
          (demo_world [''kiro-google-a.json'', ''kiro-google-c.json'', ''x.json''])))) = {} \<and>
   deleted (fst (deleteAccounts demo_backend
          [''kiro-google-a'', ''kiro-google-b'', ''kiro-google-c.json'']
          (demo_world [''kiro-google-a.json'', ''kiro-google-c.json'', ''x.json'']))) =
     [''kiro-google-a'', ''kiro-google-c.json''] \<and>
   errors (fst (deleteAccounts demo_backend
          [''kiro-google-a'', ''kiro-google-b'', ''kiro-google-c.json'']
          (demo_world [''kiro-google-a.json'', ''kiro-google-c.json'', ''x.json'']))) =
     [''kiro-google-b''] \<and>
   effects (snd (deleteAccounts demo_backend
          [''kiro-google-a'', ''kiro-google-b'', ''kiro-google-c.json'']
          (demo_world [''kiro-google-a.json'', ''kiro-google-c.json'', ''x.json'']))) =
     [Http (DeleteAuthFile ''kiro-google-a.json''), Http (DeleteAuthFile ''kiro-google-b.json''),
      Http (DeleteAuthFile ''kiro-google-c.json'')]"
proof -
  have d: "distinct [''kiro-google-a'', ''kiro-google-b'', ''kiro-google-c.json'']" by simp
  have f: "map fileNameOfId [''kiro-google-a'', ''kiro-google-b'', ''kiro-google-c.json''] =
           [''kiro-google-a.json'', ''kiro-google-b.json'', ''kiro-google-c.json'']"
    by code_simp
  show ?thesis
    using d f demo_delete
      deleteAccounts_partition [of demo_backend
        "[''kiro-google-a'', ''kiro-google-b'', ''kiro-google-c.json'']"
        "demo_world [''kiro-google-a.json'', ''kiro-google-c.json'', ''x.json'']"]
    by (simp add: demo_world_def)
qed

subsection \<open>Listing accounts\<close>

lemma getAccounts_loop_eq:
  "getAccounts_loop fs accounts =
     accounts @ map listedAccount (filter (\<lambda>f. isKiroAuthFile (af_name f)) fs)"
  by (induction fs arbitrary: accounts) simp_all

lemma isKiroAuthFile_iff:
  "isKiroAuthFile n \<longleftrightarrow>
     prefix ''kiro-'' (toLowerCase n) \<or> prefix ''amazonq-'' (toLowerCase n)"
  by (simp add: isKiroAuthFile_def KIRO_FILE_PREFIXES_def startsWith_def)

text \<open>The comparison follows JavaScript on the one letter outside ASCII that matters.\<close>

lemma isKiroAuthFile_kelvin:
  "isKiroAuthFile ([CHR 0xE2, CHR 0x84, CHR 0xAA] @ ''IRO-google-x.json'') \<and>
   isKiroAuthFile ''AmazonQ-x.json'' \<and> \<not> isKiroAuthFile ''x-kiro-.json''"
  by code_simp

lemma acc_id_listedAccount: "acc_id (listedAccount f) = replace_first (af_name f) ''.json'' []"
  by (simp add: listedAccount_def split: prod.splits)

lemma fileName_listedAccount: "fileName (listedAccount f) = Some (af_name f)"
  by (simp add: listedAccount_def split: prod.splits)

lemma replace_first_absent:
  "pat \<noteq> [] \<Longrightarrow> \<not> sublist pat s \<Longrightarrow> replace_first s pat rep = s"
proof (induction s)
  case Nil
  then show ?case by simp
next
  case (Cons c cs)
  have "\<not> prefix pat (c # cs)" using Cons.prems(2) by (meson prefix_imp_sublist)
  moreover have "\<not> sublist pat cs" using Cons.prems(2) by (meson sublist_Cons_right)
  ultimately show ?case using Cons by simp
qed

lemma replace_first_suffix:
  "pat \<noteq> [] \<Longrightarrow> \<not> sublist pat (butlast (b @ pat)) \<Longrightarrow> replace_first (b @ pat) pat [] = b"
proof (induction b)
  case Nil
  then show ?case by (cases pat) simp_all
next
  case (Cons c b)
  have bl: "butlast ((c # b) @ pat) = c # butlast (b @ pat)" using Cons.prems(1) by simp
  have np: "\<not> prefix pat ((c # b) @ pat)"
  proof
    assume "prefix pat ((c # b) @ pat)"
    then have "pat = take (length pat) ((c # b) @ pat)"
      by (metis append_eq_conv_conj prefix_def)
    also have "\<dots> = take (length pat) (butlast ((c # b) @ pat))"
    proof -
      have "length pat < length ((c # b) @ pat)" by simp
      then show ?thesis by (rule take_butlast [symmetric])
    qed
    finally have "prefix pat (butlast ((c # b) @ pat))"
      by (metis take_is_prefix)
    then show False using Cons.prems(2) by (meson prefix_imp_sublist)
  qed
  have "\<not> sublist pat (butlast (b @ pat))"
    using Cons.prems(2) bl by (metis sublist_Cons_right)
  then show ?case using Cons np by simp
qed

lemma id_is_suffix_stripped:
  assumes "\<not> str_includes (butlast (af_name f)) ''.json''"
  shows "acc_id (listedAccount f) = stripJsonSuffix (af_name f)"
proof (cases "endsWith (af_name f) ''.json''")
  case True
  then obtain b where b: "af_name f = b @ ''.json''" by (auto simp: endsWith_def suffix_def)
  have "replace_first (b @ ''.json'') ''.json'' [] = b"
    using assms b by (intro replace_first_suffix) (simp_all add: str_includes_def)
  then show ?thesis using True b by (simp add: acc_id_listedAccount stripJsonSuffix_def)
next
  case False
  have "\<not> sublist ''.json'' (af_name f)"
  proof
    assume "sublist ''.json'' (af_name f)"
    then obtain ps ss where e: "af_name f = ps @ ''.json'' @ ss" by (auto simp: sublist_def)
    show False
    proof (cases "ss = []")
      case True
      then show False using False e by (simp add: endsWith_def suffix_def)
    next
      case False
      then have "butlast (af_name f) = ps @ ''.json'' @ butlast ss"
        using e by (simp add: butlast_append)
      then show False using assms by (auto simp: str_includes_def sublist_def)
    qed
  qed
  then show ?thesis using False
    by (simp add: acc_id_listedAccount stripJsonSuffix_def replace_first_absent)
qed

lemma getAccounts_lists_kiro_files:
  assumes "get_auth_files be (server w) = (Inr (Some \<lparr> files = Some fs \<rparr>), s')"
  shows "fst (getAccounts be w) =
           Inr (map listedAccount (filter (\<lambda>f. isKiroAuthFile (af_name f)) fs))"
  using assms by (simp add: getAccounts_def http_def getAccounts_loop_eq)

text \<open>
  C6. \<open>getAccounts\<close> lists one account for each file whose lower-cased name starts with
  \<open>kiro-\<close> or \<open>amazonq-\<close>, in the order of the backend (\<open>getAccounts_lists_kiro_files\<close>), and
  the id is the name without its \<open>.json\<close> suffix when \<open>.json\<close> occurs nowhere else in the
  name (\<open>id_is_suffix_stripped\<close>). The id is built by removing the first \<open>.json\<close> of the name,
  though: for the file \<open>kiro-google-a.json.bak.json\<close> it is \<open>kiro-google-a.bak.json\<close>, not the
  name without its suffix, and the file name the other calls rebuild from that id is not the
  name of the file.
\<close>

theorem getAccounts_id_not_suffix_stripped:
  "fst (getAccounts demo_backend (demo_world [''kiro-google-a.json.bak.json''])) =
     Inr [demo_account ''kiro-google-a.json.bak.json''] \<and>
   acc_id (demo_account ''kiro-google-a.json.bak.json'') = ''kiro-google-a.bak.json'' \<and>
   stripJsonSuffix ''kiro-google-a.json.bak.json'' = ''kiro-google-a.json.bak'' \<and>
   fileNameOfId (acc_id (demo_account ''kiro-google-a.json.bak.json'')) \<noteq>
     ''kiro-google-a.json.bak.json''"
  by code_simp

subsection \<open>Refreshing all accounts\<close>

lemma refreshAccount_effects:
  "effects (snd (refreshAccount be rt i w)) = effects w @ [Http (GetAuthFile (fileNameOfId i))]"
proof -
  obtain r s' where h: "get_auth_file be (fileNameOfId i) (server w) = (r, s')"
    by (cases "get_auth_file be (fileNameOfId i) (server w)")
  show ?thesis by (cases r) (simp_all add: refreshAccount_def http_def h Let_def)
qed

lemma refreshAccount_cases:
  "(\<exists>c. fst (refreshAccount be rt i w) =
          \<lparr> r_success = True, r_account = parseKiroAuthFile rt (fileNameOfId i) c, r_error = None \<rparr>) \<or>
   (\<exists>e. fst (refreshAccount be rt i w) =
          \<lparr> r_success = False, r_account = None, r_error = Some e \<rparr>)"
proof -
  obtain r s' where h: "get_auth_file be (fileNameOfId i) (server w) = (r, s')"
    by (cases "get_auth_file be (fileNameOfId i) (server w)")
  show ?thesis by (cases r) (auto simp: refreshAccount_def http_def h Let_def)
qed

lemma parseKiroAuthFile_Some: "\<exists>a. parseKiroAuthFile rt n c = Some a"
  by (simp add: parseKiroAuthFile_def split: prod.splits)

lemma refreshAll_loop_spec:
  "refreshAll_loop be rt as s f acc w = (r, w2) \<Longrightarrow>
     ra_success r = s + length (filter refreshOk (refreshEach be rt as w)) \<and>
     ra_failed r = f + length (filter (\<lambda>x. \<not> refreshOk x) (refreshEach be rt as w)) \<and>
     ra_accounts r = acc @ map2 refreshedOr as (refreshEach be rt as w) \<and>
     effects w2 = effects w @ map (\<lambda>a. Http (GetAuthFile (fileNameOfId (acc_id a)))) as"
proof (induction as arbitrary: s f acc w)
  case Nil
  then show ?case by auto
next
  case (Cons a as)
  obtain res w1 where h: "refreshAccount be rt (acc_id a) w = (res, w1)"
    by (cases "refreshAccount be rt (acc_id a) w")
  have e1: "effects w1 = effects w @ [Http (GetAuthFile (fileNameOfId (acc_id a)))]"
    using refreshAccount_effects [of be rt "acc_id a" w] h by simp
  show ?case
  proof (cases "if r_success res then r_account res else None")
    case None
    then have nok: "\<not> refreshOk res" by (auto simp: refreshOk_def split: if_splits)
    have "refreshAll_loop be rt as s (f + 1) (acc @ [a]) w1 = (r, w2)"
      using Cons.prems h None by simp
    from Cons.IH [OF this] show ?thesis
      using h None nok e1 by (simp add: refreshedOr_def)
  next
    case (Some x)
    then have ok: "refreshOk res" by (auto simp: refreshOk_def split: if_splits)
    have "refreshAll_loop be rt as (s + 1) f (acc @ [x]) w1 = (r, w2)"
      using Cons.prems h Some by simp
    from Cons.IH [OF this] show ?thesis
      using h Some ok e1 by (simp add: refreshedOr_def)
  qed
qed

lemma length_refreshEach: "length (refreshEach be rt as w) = length as"
  by (induction as arbitrary: w) (auto split: prod.splits)

lemma sum_filter_length: "length (filter P xs) + length (filter (\<lambda>x. \<not> P x) xs) = length xs"
  by (induction xs) auto

lemma refreshEach_reread:
  "list_all2 (\<lambda>a res. if refreshOk res
                       then \<exists>c. parseKiroAuthFile rt (fileNameOfId (acc_id a)) c = Some (refreshedOr a res)
                       else refreshedOr a res = a)
     as (refreshEach be rt as w)"
proof (induction as arbitrary: w)
  case Nil
  show ?case by simp
next
  case (Cons a as)
  obtain res w1 where h: "refreshAccount be rt (acc_id a) w = (res, w1)"
    by (cases "refreshAccount be rt (acc_id a) w")
  have "if refreshOk res
        then \<exists>c. parseKiroAuthFile rt (fileNameOfId (acc_id a)) c = Some (refreshedOr a res)
        else refreshedOr a res = a"
    using refreshAccount_cases [of be rt "acc_id a" w] h
      parseKiroAuthFile_Some [of rt "fileNameOfId (acc_id a)"]
    by (auto simp: refreshOk_def refreshedOr_def)
  then show ?case using h Cons.IH [of w1] by simp
qed

text \<open>
  When the listing succeeds, \<open>refreshAllAccounts\<close> returns; it has asked for one file for
  every listed account, in order; \<open>success + failed\<close> is the number of listed accounts; and
  \<open>accounts\<close> has one entry for each listed account, in the same order: the record parsed
  from the answer to the account's request when there was one, the listed record otherwise.
\<close>

lemma refreshAllAccounts_counts:
  assumes "getAccounts be w = (Inr listed, w1)"
  shows "\<exists>r w2. refreshAllAccounts be rt w = (Inr r, w2) \<and>
           ra_success r + ra_failed r = length listed \<and>
           length (ra_accounts r) = length listed \<and>
           ra_success r = length (filter refreshOk (refreshEach be rt listed w1)) \<and>
           ra_accounts r = map2 refreshedOr listed (refreshEach be rt listed w1) \<and>
           list_all2 (\<lambda>a x. x = a \<or>
                        (\<exists>c. parseKiroAuthFile rt (fileNameOfId (acc_id a)) c = Some x))
             listed (ra_accounts r) \<and>
           effects w2 = effects w1 @ map (\<lambda>a. Http (GetAuthFile (fileNameOfId (acc_id a)))) listed"
proof -
  obtain r w2 where l: "refreshAll_loop be rt listed 0 0 [] w1 = (r, w2)"
    by (cases "refreshAll_loop be rt listed 0 0 [] w1")
  note sp = refreshAll_loop_spec [OF l]
  have run: "refreshAllAccounts be rt w = (Inr r, w2)"
    using assms l by (simp add: refreshAllAccounts_def)
  have cnt: "ra_success r + ra_failed r = length listed"
    using sp sum_filter_length [of refreshOk "refreshEach be rt listed w1"]
    by (simp add: length_refreshEach)
  have len: "length (ra_accounts r) = length listed"
    using sp by (simp add: length_refreshEach)
  have acc: "ra_accounts r = map2 refreshedOr listed (refreshEach be rt listed w1)"
    using sp by simp
  have rr: "list_all2 (\<lambda>a x. x = a \<or>
                        (\<exists>c. parseKiroAuthFile rt (fileNameOfId (acc_id a)) c = Some x))
             listed (ra_accounts r)"
    unfolding acc list_all2_conv_all_nth
  proof (intro conjI allI impI)
    show "length listed = length (map2 refreshedOr listed (refreshEach be rt listed w1))"
      by (simp add: length_refreshEach)
  next
    fix i assume i: "i < length listed"
    have "if refreshOk (refreshEach be rt listed w1 ! i)
          then \<exists>c. parseKiroAuthFile rt (fileNameOfId (acc_id (listed ! i))) c =
                     Some (refreshedOr (listed ! i) (refreshEach be rt listed w1 ! i))
          else refreshedOr (listed ! i) (refreshEach be rt listed w1 ! i) = listed ! i"
      using refreshEach_reread [of rt listed be w1] i by (simp add: list_all2_conv_all_nth)
    then show "map2 refreshedOr listed (refreshEach be rt listed w1) ! i = listed ! i \<or>
          (\<exists>c. parseKiroAuthFile rt (fileNameOfId (acc_id (listed ! i))) c =
                  Some (map2 refreshedOr listed (refreshEach be rt listed w1) ! i))"
      using i by (auto simp: length_refreshEach split: if_splits)
  qed
  have su: "ra_success r = length (filter refreshOk (refreshEach be rt listed w1))"
    using sp by simp
  have ef: "effects w2 =
      effects w1 @ map (\<lambda>a. Http (GetAuthFile (fileNameOfId (acc_id a)))) listed"
    using sp by simp
  show ?thesis
    using run cnt len su acc rr ef
    by - (rule exI [of _ r], rule exI [of _ w2], intro conjI, assumption+)
qed

lemma demo_listing:
  "fst (getAccounts demo_backend
          (demo_world [''kiro-google-a.json'', ''x.json'', ''kiro-github-locked.json''])) =
     Inr [demo_account ''kiro-google-a.json'', demo_account ''kiro-github-locked.json'']"
  by code_simp

lemma demo_refresh:
  "(case fst (refreshAllAccounts demo_backend demo_runtime
                (demo_world [''kiro-google-a.json'', ''x.json'', ''kiro-github-locked.json''])) of
      Inl e \<Rightarrow> None
    | Inr r \<Rightarrow> Some (ra_success r, ra_failed r, map status (ra_accounts r))) =
   Some (1, 1, [''unknown'', ''unknown''])"
  by code_simp

lemma refreshAllAccounts_counts_example:
  "fst (getAccounts demo_backend
          (demo_world [''kiro-google-a.json'', ''x.json'', ''kiro-github-locked.json''])) =
     Inr [demo_account ''kiro-google-a.json'', demo_account ''kiro-github-locked.json''] \<and>
   (\<exists>r w2. refreshAllAccounts demo_backend demo_runtime
              (demo_world [''kiro-google-a.json'', ''x.json'', ''kiro-github-locked.json'']) =
              (Inr r, w2) \<and>
            ra_success r = 1 \<and> ra_failed r = 1 \<and> length (ra_accounts r) = 2)"
proof -
  let ?w = "demo_world [''kiro-google-a.json'', ''x.json'', ''kiro-github-locked.json'']"
  let ?l = "[demo_account ''kiro-google-a.json'', demo_account ''kiro-github-locked.json'']"
  have g: "getAccounts demo_backend ?w = (Inr ?l, snd (getAccounts demo_backend ?w))"
    using demo_listing by (metis prod.collapse)
  from refreshAllAccounts_counts [OF g, of demo_runtime]
  obtain r w2 where r: "refreshAllAccounts demo_backend demo_runtime ?w = (Inr r, w2)"
    and n: "ra_success r + ra_failed r = length ?l" "length (ra_accounts r) = length ?l"
    by blast
  have "ra_success r = 1 \<and> ra_failed r = 1" using demo_refresh r by simp
  then show ?thesis using demo_listing r n by simp
qed

text \<open>What \<open>refreshAccount\<close> returns, from the answer of the backend to its one request.\<close>

lemma refreshAccount_reads:
  "get_auth_file be (fileNameOfId i) (server w) = (Inr content, s') \<Longrightarrow>
   fst (refreshAccount be rt i w) =
     \<lparr> r_success = True,
       r_account = parseKiroAuthFile rt (fileNameOfId i)
                     (case content of None \<Rightarrow> empty_content | Some c \<Rightarrow> c),
       r_error = None \<rparr>"
  "get_auth_file be (fileNameOfId i) (server w) = (Inl e, s') \<Longrightarrow>
   fst (refreshAccount be rt i w) =
     \<lparr> r_success = False, r_account = None, r_error = Some (String_of_error e) \<rparr>"
  by (simp_all add: refreshAccount_def http_def Let_def)

text \<open>
  The file the refresh of a listed account asks for is the account's own file when the name
  of the file ends in \<open>.json\<close> and has no other \<open>.json\<close> in it.
\<close>

lemma fileNameOfId_listed:
  assumes "endsWith (af_name f) ''.json''" and "\<not> str_includes (butlast (af_name f)) ''.json''"
  shows "fileNameOfId (acc_id (listedAccount f)) = af_name f"
proof -
  obtain b where b: "af_name f = b @ ''.json''"
    using assms(1) by (auto simp: endsWith_def suffix_def)
  have i: "acc_id (listedAccount f) = b"
    using id_is_suffix_stripped [OF assms(2)] assms(1) b by (simp add: stripJsonSuffix_def)
  have "\<not> suffix ''.json'' b"
  proof
    assume "suffix ''.json'' b"
    then obtain c where "b = c @ ''.json''" by (auto simp: suffix_def)
    then have "butlast (af_name f) = c @ ''.json'' @ ''.jso''" using b by (simp add: butlast_append)
    then show False using assms(2) by (auto simp: str_includes_def sublist_def)
  qed
  then show ?thesis using i b by (simp add: fileNameOfId_def endsWith_def)
qed

text \<open>
  C7. \<open>refreshAllAccounts\<close> returns one entry for each listed account, in order, with
  \<open>success + failed\<close> the number of listed accounts (\<open>refreshAllAccounts_counts\<close>), and the
  entry of an account is the record re-read from its own file when the name of the file
  ends in \<open>.json\<close> with no other \<open>.json\<close> in it (\<open>refreshAccount_reads\<close>,
  \<open>fileNameOfId_listed\<close>). The refresh rebuilds the file name from the id, though, and takes
  an id that ends in \<open>.json\<close> for a file name: with the files \<open>kiro-a.json\<close> and
  \<open>kiro-a.json.json\<close> the second account has the id \<open>kiro-a.json\<close>, its refresh reads the
  first file, and the result holds the record of the first file twice, counted as two
  successes.
\<close>

theorem refreshAllAccounts_rereads_other_file:
  "(case fst (getAccounts content_backend twin_world) of
      Inl e \<Rightarrow> None
    | Inr listed \<Rightarrow> Some (map acc_id listed, map fileName listed)) =
     Some ([''kiro-a'', ''kiro-a.json''], [Some ''kiro-a.json'', Some ''kiro-a.json.json'']) \<and>
   (case fst (refreshAllAccounts content_backend demo_runtime twin_world) of
      Inl e \<Rightarrow> None
    | Inr r \<Rightarrow> Some (ra_success r, ra_failed r, map email (ra_accounts r),
                     map fileName (ra_accounts r))) =
     Some (2, 0, [''first@x.io'', ''first@x.io''], [Some ''kiro-a.json'', Some ''kiro-a.json'']) \<and>
   effects (snd (refreshAllAccounts content_backend demo_runtime twin_world)) =
     [Http GetAuthFiles, Http (GetAuthFile ''kiro-a.json''), Http (GetAuthFile ''kiro-a.json'')] \<and>
   map_option email
     (parseKiroAuthFile demo_runtime ''kiro-a.json.json''
        (empty_content\<lparr> c_email := Some ''second@x.io'' \<rparr>)) = Some ''second@x.io''"
  by code_simp

section \<open>Properties of the Kiro page\<close>

subsection \<open>The cache and the browser storage\<close>

lemma saveCacheToStorage_accepted:
  assumes "JSON_stringify rt A = Some js" and "accepts st CACHE_KEY js"
  shows "getItem (saveCacheToStorage rt A st) CACHE_KEY = Some js"
  using assms by (simp add: saveCacheToStorage_def setItem_def getItem_def)

lemma saveCacheToStorage_refused:
  "\<not> writeAccepted rt st A \<Longrightarrow> saveCacheToStorage rt A st = st"
  by (auto simp: saveCacheToStorage_def setItem_def writeAccepted_def split: option.splits)

lemma load_after_save:
  assumes "serializable rt A" and "writeAccepted rt st A"
  shows "loadCacheFromStorage rt (saveCacheToStorage rt A st) = (A, calcAccountStats A)"
proof -
  from assms(1) obtain js where t: "JSON_stringify rt A = Some js" "js \<noteq> []"
    "JSON_parse rt js = Some A"
    by (auto simp: serializable_def split: option.splits)
  from assms(2) t(1) have "accepts st CACHE_KEY js" by (simp add: writeAccepted_def)
  from saveCacheToStorage_accepted [OF t(1) this] t show ?thesis
    by (simp add: loadCacheFromStorage_def)
qed

text \<open>
  C2 (amended). When the account list is serializable and the browser accepts the write,
  \<open>saveCacheToStorage\<close> followed by \<open>loadCacheFromStorage\<close> gives back the list with its
  \<open>calcAccountStats\<close>, and the JSON text of the list is stored under \<open>kiro_accounts_cache\<close>;
  a write that is not accepted is swallowed and leaves the storage as it was. Every
  \<open>updateCache\<close> attempts this write, to the same key, with the new list.
\<close>

theorem cache_roundtrip:
  "(serializable rt A \<and> writeAccepted rt st A \<longrightarrow>
      loadCacheFromStorage rt (saveCacheToStorage rt A st) = (A, calcAccountStats A) \<and>
      getItem (saveCacheToStorage rt A st) CACHE_KEY = JSON_stringify rt A) \<and>
   (\<not> writeAccepted rt st A \<longrightarrow> saveCacheToStorage rt A st = st) \<and>
   localStorage (updateCache rt A w) = saveCacheToStorage rt A (localStorage w) \<and>
   cachedAccounts (updateCache rt A w) = A \<and>
   cachedStats (updateCache rt A w) = calcAccountStats A \<and>
   (writeAccepted rt (localStorage w) A \<longrightarrow>
      getItem (localStorage (updateCache rt A w)) CACHE_KEY = JSON_stringify rt A)"
proof -
  have acc: "getItem (saveCacheToStorage rt A s) CACHE_KEY = JSON_stringify rt A"
    if "writeAccepted rt s A" for s
    using that saveCacheToStorage_accepted [of rt A _ s]
    by (auto simp: writeAccepted_def split: option.splits)
  show ?thesis
    using load_after_save [of rt A st] acc [of st] acc [of "localStorage w"]
      saveCacheToStorage_refused [of rt st A]
    by (simp add: updateCache_def)
qed

lemma demo_serializable:
  "serializable demo_runtime [demo_account ''kiro-google-a.json'']"
  by code_simp

lemma demo_accepted:
  "writeAccepted demo_runtime demo_storage [demo_account ''kiro-google-a.json''] \<and>
   \<not> writeAccepted demo_runtime full_storage [demo_account ''kiro-google-a.json'']"
  by code_simp

lemma demo_stringify:
  "JSON_stringify demo_runtime [demo_account ''kiro-google-a.json''] = Some ''[a]''"
  by code_simp

theorem cache_roundtrip_witness:
  "serializable demo_runtime [demo_account ''kiro-google-a.json''] \<and>
   writeAccepted demo_runtime demo_storage [demo_account ''kiro-google-a.json''] \<and>
   writeAccepted demo_runtime (localStorage (demo_world [])) [demo_account ''kiro-google-a.json''] \<and>
   \<not> writeAccepted demo_runtime full_storage [demo_account ''kiro-google-a.json''] \<and>
   loadCacheFromStorage demo_runtime
     (saveCacheToStorage demo_runtime [demo_account ''kiro-google-a.json''] demo_storage) =
     ([demo_account ''kiro-google-a.json''], calcAccountStats [demo_account ''kiro-google-a.json'']) \<and>
   saveCacheToStorage demo_runtime [demo_account ''kiro-google-a.json''] full_storage = full_storage \<and>
   getItem (localStorage (updateCache demo_runtime [demo_account ''kiro-google-a.json'']
              (demo_world []))) CACHE_KEY = Some ''[a]''"
  using demo_serializable demo_accepted demo_stringify
    cache_roundtrip [of demo_runtime "[demo_account ''kiro-google-a.json'']" demo_storage
      "demo_world []"]
    cache_roundtrip [of demo_runtime "[demo_account ''kiro-google-a.json'']" full_storage
      "demo_world []"]
  by (simp add: demo_world_def)

text \<open>
  The round trip as the claim states it, for every serializable list, fails where the
  browser refuses the write: the list is not stored and the load gives the empty cache.
\<close>

theorem cache_roundtrip_counterexample:
  "serializable demo_runtime [demo_account ''kiro-google-a.json''] \<and>
   loadCacheFromStorage demo_runtime
     (saveCacheToStorage demo_runtime [demo_account ''kiro-google-a.json''] full_storage) =
     ([], emptyStats) \<and>
   loadCacheFromStorage demo_runtime
     (saveCacheToStorage demo_runtime [demo_account ''kiro-google-a.json''] full_storage) \<noteq>
     ([demo_account ''kiro-google-a.json''], calcAccountStats [demo_account ''kiro-google-a.json''])"
proof -
  have s: "saveCacheToStorage demo_runtime [demo_account ''kiro-google-a.json''] full_storage =
           full_storage"
    using demo_accepted by (simp add: saveCacheToStorage_refused)
  have l: "loadCacheFromStorage demo_runtime full_storage = ([], emptyStats)"
    by (simp add: loadCacheFromStorage_def getItem_def full_storage_def)
  show ?thesis using demo_serializable s l by simp
qed

subsection \<open>Batched usage refresh\<close>

lemma sameAccount_refl: "sameAccount a a"
  by (simp add: sameAccount_def)

lemma sameAccount_acc_id: "sameAccount a b \<Longrightarrow> acc_id b = acc_id a"
proof -
  assume "sameAccount a b"
  then have "acc_id (b\<lparr> status := status a, usageData := usageData a \<rparr>) = acc_id a"
    by (simp add: sameAccount_def)
  then show ?thesis by simp
qed

lemma sameAccount_update:
  "sameAccount a b \<Longrightarrow> sameAccount a (b\<lparr> status := s \<rparr>)"
  "sameAccount a b \<Longrightarrow> sameAccount a (b\<lparr> status := s, usageData := u \<rparr>)"
  by (simp_all add: sameAccount_def)

lemma list_all2_same_update:
  assumes "list_all2 sameAccount xs rs" and "\<And>b. sameAccount (xs ! idx) b \<Longrightarrow> sameAccount (xs ! idx) (g b)"
  shows "list_all2 sameAccount xs (rs[idx := g (rs ! idx)])"
proof (cases "idx < length rs")
  case True
  have "list_all2 sameAccount (xs[idx := xs ! idx]) (rs[idx := g (rs ! idx)])"
    using assms True by (intro list_all2_update_cong) (auto simp: list_all2_conv_all_nth)
  then show ?thesis by simp
next
  case False
  then have "rs[idx := g (rs ! idx)] = rs" by (simp add: list_update_beyond not_less)
  then show ?thesis using assms(1) by simp
qed

lemma applyUsage_same:
  "list_all2 sameAccount xs rs \<Longrightarrow> list_all2 sameAccount xs (applyUsage idx outcome rs)"
  by (auto simp: applyUsage_def sameAccount_update intro!: list_all2_same_update split: sum.splits)

lemma settleBatch_same:
  "list_all2 sameAccount xs rs \<Longrightarrow> list_all2 sameAccount xs (settleBatch arrival pending rs)"
proof -
  have "list_all2 sameAccount xs rs \<Longrightarrow>
        list_all2 sameAccount xs (fold (\<lambda>(idx, outcome). applyUsage idx outcome) ps rs)" for ps
    by (induction ps arbitrary: rs) (auto simp: applyUsage_same)
  then show "list_all2 sameAccount xs rs \<Longrightarrow> ?thesis" by (simp add: settleBatch_def)
qed

lemma issueBatch_effects:
  "effects (snd (issueBatch be idx batch w)) =
     effects w @ map (\<lambda>n. Http (GetKiroUsage n)) (requested batch)"
proof (induction batch arbitrary: idx w)
  case Nil
  show ?case by (simp add: requested_def map_filter_simps)
next
  case (Cons a batch)
  show ?case
  proof (cases "str_or (fileName a) None")
    case None
    then show ?thesis using Cons.IH [of "idx + 1" w]
      by (simp add: requested_def map_filter_simps)
  next
    case (Some n)
    obtain r s' where h: "get_kiro_usage be n (server w) = (r, s')"
      by (cases "get_kiro_usage be n (server w)")
    let ?w1 = "w\<lparr>server := s', effects := effects w @ [Http (GetKiroUsage n)]\<rparr>"
    show ?thesis using Cons.IH [of "idx + 1" ?w1] Some h
      by (auto simp: requested_def map_filter_simps http_def split: prod.splits)
  qed
qed

lemma chunks_step:
  "i < length xs \<Longrightarrow>
   chunks BATCH_SIZE (drop i xs) =
     take BATCH_SIZE (drop i xs) # chunks BATCH_SIZE (drop (i + BATCH_SIZE) xs)"
  by (subst chunks.simps) (simp add: BATCH_SIZE_def add.commute)

lemma chunks_done: "\<not> i < length xs \<Longrightarrow> chunks BATCH_SIZE (drop i xs) = []"
  by (subst chunks.simps) simp

lemma fetchUsage_loop_spec:
  "list_all2 sameAccount xs results \<Longrightarrow>
   fetchUsage_loop be rt arrival xs i results w = (res, w') \<Longrightarrow>
   \<exists>snaps. length snaps = length (chunks BATCH_SIZE (drop i xs)) \<and>
     effects w' = effects w @ concat (map2 batchEffects (chunks BATCH_SIZE (drop i xs)) snaps) \<and>
     list_all (list_all2 sameAccount xs) snaps \<and>
     res = last (results # snaps) \<and>
     cachedAccounts w' = last (cachedAccounts w # snaps)"
proof (induction be rt arrival xs i results w rule: fetchUsage_loop.induct)
  case (1 be rt arrival xs i results w)
  show ?case
  proof (cases "i < length xs")
    case False
    have ch: "chunks BATCH_SIZE (drop i xs) = []" using False by (rule chunks_done)
    have "fetchUsage_loop be rt arrival xs i results w = (results, w)"
      using False by (subst fetchUsage_loop.simps) simp
    then have "res = results" "w' = w" using "1.prems"(2) by simp_all
    then show ?thesis unfolding ch by (intro exI [of _ "[]"]) simp
  next
    case True
    let ?batch = "take BATCH_SIZE (drop i xs)"
    obtain pending w1 where ib: "issueBatch be i ?batch w = (pending, w1)"
      by (cases "issueBatch be i ?batch w")
    let ?r = "settleBatch arrival pending results"
    let ?w2 = "updateCache rt ?r w1"
    have same: "list_all2 sameAccount xs ?r" using "1.prems"(1) by (rule settleBatch_same)
    have "fetchUsage_loop be rt arrival xs i results w =
          fetchUsage_loop be rt arrival xs (i + BATCH_SIZE) ?r ?w2"
      using True ib by (subst fetchUsage_loop.simps) (simp add: Let_def)
    then have run: "fetchUsage_loop be rt arrival xs (i + BATCH_SIZE) ?r ?w2 = (res, w')"
      using "1.prems"(2) by simp
    from "1.IH" [OF True ib [symmetric] refl same run]
    obtain snaps where sn: "length snaps = length (chunks BATCH_SIZE (drop (i + BATCH_SIZE) xs))"
      "effects w' = effects ?w2 @
         concat (map2 batchEffects (chunks BATCH_SIZE (drop (i + BATCH_SIZE) xs)) snaps)"
      "list_all (list_all2 sameAccount xs) snaps"
      "res = last (?r # snaps)" "cachedAccounts w' = last (cachedAccounts ?w2 # snaps)"
      by blast
    have e1: "effects w1 = effects w @ map (\<lambda>n. Http (GetKiroUsage n)) (requested ?batch)"
      using issueBatch_effects [of be i ?batch w] ib by simp
    have e2: "effects ?w2 = effects w @ batchEffects ?batch ?r"
      using e1 by (simp add: updateCache_def batchEffects_def)
    have c2: "cachedAccounts ?w2 = ?r" by (simp add: updateCache_def)
    show ?thesis
      unfolding chunks_step [OF True]
      using sn e2 c2 same
      by (intro exI [of _ "?r # snaps"]) simp
  qed
qed

lemma chunks_concat: "0 < k \<Longrightarrow> concat (chunks k xs) = xs"
proof (induction k xs rule: chunks.induct)
  case (1 k xs)
  show ?case
  proof (cases "xs = []")
    case True
    then show ?thesis by (subst chunks.simps) simp
  next
    case False
    then show ?thesis using 1 by (subst chunks.simps) simp
  qed
qed

lemma chunks_sizes: "list_all (\<lambda>b. 0 < length b \<and> length b \<le> k) (chunks k xs)"
proof (induction k xs rule: chunks.induct)
  case (1 k xs)
  show ?case
  proof (cases "k = 0 \<or> xs = []")
    case True
    then show ?thesis by (subst chunks.simps) simp
  next
    case False
    then show ?thesis using 1 by (subst chunks.simps) auto
  qed
qed

text \<open>
  The callbacks of a batch write to different entries of the array, so the order in which
  the answers arrive does not matter.
\<close>

lemma applyUsage_as_update:
  "\<exists>g. \<forall>rs. applyUsage idx outcome rs = rs[idx := g (rs ! idx)]"
proof (cases outcome)
  case (Inl e)
  then show ?thesis by (intro exI [of _ "\<lambda>a. a"]) (simp add: applyUsage_def)
next
  case (Inr usage)
  consider (ok) "ur_status usage = ''ok''"
    | (banned) "ur_status usage \<noteq> ''ok''" "ur_status usage = ''banned''"
    | (expired) "ur_status usage \<noteq> ''ok''" "ur_status usage \<noteq> ''banned''"
        "ur_status usage = ''expired'' \<or>
         (case ur_error usage of None \<Rightarrow> False | Some e \<Rightarrow> str_includes e ''expired'')"
    | (other) "ur_status usage \<noteq> ''ok''" "ur_status usage \<noteq> ''banned''"
        "\<not> (ur_status usage = ''expired'' \<or>
            (case ur_error usage of None \<Rightarrow> False | Some e \<Rightarrow> str_includes e ''expired''))"
    by blast
  then show ?thesis
  proof cases
    case ok
    then show ?thesis using Inr
      by (intro exI [of _ "\<lambda>a. a\<lparr> status := ''active'',
                usageData := Some
                  \<lparr> usageBreakdownList = Some
                      [\<lparr> currentUsage = Some (nullish_or (current_usage usage) 0),
                         usageLimit = Some (nullish_or (usage_limit usage) 0),
                         bd_nextDateReset = None, overageRate = None,
                         freeTrialInfo = None, bonuses = None \<rparr>],
                    usageBreakdown = None,
                    subscriptionInfo = Some
                      \<lparr> sub_type = ''subscription'',
                        subscriptionTitle = nullish_or (subscription_title usage) ''Free'',
                        overageCapability = None, upgradeCapability = None \<rparr>,
                    userInfo = None, overageConfiguration = None, daysUntilReset = None,
                    nextDateReset = None \<rparr> \<rparr>"])
         (simp add: applyUsage_def)
  next
    case banned
    then show ?thesis using Inr
      by (intro exI [of _ "\<lambda>a. a\<lparr> status := ''banned'' \<rparr>"]) (simp add: applyUsage_def)
  next
    case expired
    then show ?thesis using Inr
      by (intro exI [of _ "\<lambda>a. a\<lparr> status := ''expired'' \<rparr>"]) (simp add: applyUsage_def)
  next
    case other
    then show ?thesis using Inr
      by (intro exI [of _ "\<lambda>a. a"]) (simp add: applyUsage_def)
  qed
qed

lemma applyUsage_commute:
  assumes "i \<noteq> j"
  shows "applyUsage i a (applyUsage j b rs) = applyUsage j b (applyUsage i a rs)"
proof -
  from applyUsage_as_update [of i a] obtain g where
    g: "\<And>rs. applyUsage i a rs = rs[i := g (rs ! i)]" by blast
  from applyUsage_as_update [of j b] obtain h where
    h: "\<And>rs. applyUsage j b rs = rs[j := h (rs ! j)]" by blast
  show ?thesis
    using assms by (simp add: g h list_update_swap [of i j])
qed

lemma settleBatch_any_order:
  assumes "distinct (map fst pending)" and "mset (arrival pending) = mset pending"
  shows "settleBatch arrival pending rs = settleBatch (\<lambda>p. p) pending rs"
proof -
  let ?f = "\<lambda>(idx, outcome). applyUsage idx outcome"
  have "?f x \<circ> ?f y = ?f y \<circ> ?f x" if "x \<in> set pending" "y \<in> set pending" for x y
  proof (cases "x = y")
    case True
    then show ?thesis by simp
  next
    case False
    then have "fst x \<noteq> fst y"
      using assms(1) that by (metis distinct_map inj_onD)
    then show ?thesis
      by (cases x; cases y) (auto simp: fun_eq_iff applyUsage_commute)
  qed
  then have "fold ?f pending = fold ?f (arrival pending)"
    using assms(2) by (intro fold_multiset_equiv) simp_all
  then show ?thesis by (simp add: settleBatch_def)
qed

lemma issueBatch_indices:
  "sorted_wrt (<) (map fst (fst (issueBatch be idx batch w))) \<and>
   (\<forall>p \<in> set (fst (issueBatch be idx batch w)). idx \<le> fst p)"
proof (induction batch arbitrary: idx w)
  case Nil
  show ?case by simp
next
  case (Cons a batch)
  show ?case
  proof (cases "str_or (fileName a) None")
    case None
    have "issueBatch be idx (a # batch) w = issueBatch be (idx + 1) batch w"
      using None by simp
    moreover have "\<forall>p \<in> set (fst (issueBatch be (idx + 1) batch w)). idx \<le> fst p"
      using Cons.IH [of "idx + 1" w] by auto
    ultimately show ?thesis using Cons.IH [of "idx + 1" w] by simp
  next
    case (Some n)
    obtain r w1 where h: "http (get_kiro_usage be n) (GetKiroUsage n) w = (r, w1)"
      by (cases "http (get_kiro_usage be n) (GetKiroUsage n) w")
    obtain x1 x2 where rec: "issueBatch be (idx + 1) batch w1 = (x1, x2)"
      by (cases "issueBatch be (idx + 1) batch w1")
    have e: "fst (issueBatch be idx (a # batch) w) = (idx, r) # x1"
      using Some h rec by simp
    have ih: "sorted_wrt (<) (map fst x1)" "\<forall>p \<in> set x1. idx + 1 \<le> fst p"
      using Cons.IH [of "idx + 1" w1] rec by simp_all
    have lt: "\<forall>p \<in> set x1. idx < fst p"
    proof
      fix p assume "p \<in> set x1"
      then have "idx + 1 \<le> fst p" using ih(2) by blast
      then show "idx < fst p" by simp
    qed
    have le: "\<forall>p \<in> set x1. idx \<le> fst p"
      using lt by (simp add: less_imp_le)
    show ?thesis unfolding e using ih(1) lt le by simp
  qed
qed

lemma issueBatch_distinct: "distinct (map fst (fst (issueBatch be idx batch w)))"
proof -
  have "sorted_wrt (<) (map fst (fst (issueBatch be idx batch w)))"
    using issueBatch_indices [of be idx batch w] by (rule conjunct1)
  then show ?thesis by (simp add: strict_sorted_iff)
qed

lemma fetchUsage_loop_any_order:
  "(\<forall>p. mset (arrival p) = mset p) \<Longrightarrow>
   fetchUsage_loop be rt arrival xs i rs w = fetchUsage_loop be rt (\<lambda>p. p) xs i rs w"
proof (induction be rt arrival xs i rs w rule: fetchUsage_loop.induct)
  case (1 be rt arrival xs i rs w)
  show ?case
  proof (cases "i < length xs")
    case False
    have "fetchUsage_loop be rt arrival xs i rs w = (rs, w)"
      using False by (subst fetchUsage_loop.simps) simp
    moreover have "fetchUsage_loop be rt (\<lambda>p. p) xs i rs w = (rs, w)"
      using False by (subst fetchUsage_loop.simps) simp
    ultimately show ?thesis by simp
  next
    case True
    let ?batch = "take BATCH_SIZE (drop i xs)"
    obtain pending w1 where ib: "issueBatch be i ?batch w = (pending, w1)"
      by (cases "issueBatch be i ?batch w")
    have d: "distinct (map fst pending)"
      using issueBatch_distinct [of be i ?batch w] ib by simp
    let ?r = "settleBatch arrival pending rs"
    let ?w2 = "updateCache rt ?r w1"
    have s: "settleBatch (\<lambda>p. p) pending rs = ?r"
      using settleBatch_any_order [OF d, of arrival rs] "1.prems" by simp
    have l: "fetchUsage_loop be rt arrival xs i rs w =
             fetchUsage_loop be rt arrival xs (i + BATCH_SIZE) ?r ?w2"
      using True ib by (subst fetchUsage_loop.simps) (simp add: Let_def)
    have r: "fetchUsage_loop be rt (\<lambda>p. p) xs i rs w =
             fetchUsage_loop be rt (\<lambda>p. p) xs (i + BATCH_SIZE) ?r ?w2"
      using True ib s by (subst fetchUsage_loop.simps) (simp add: Let_def)
    from "1.IH" [OF True ib [symmetric] refl "1.prems"] l r show ?thesis by simp
  qed
qed

lemma fetchUsageForAccounts_any_order:
  "(\<forall>p. mset (arrival p) = mset p) \<Longrightarrow>
   fetchUsageForAccounts be rt arrival accountList w =
   fetchUsageForAccounts be rt (\<lambda>p. p) accountList w"
  unfolding fetchUsageForAccounts_def by (rule fetchUsage_loop_any_order)

text \<open>
  C1. \<open>fetchUsageForAccounts\<close> cuts the account list into consecutive batches of at most
  \<open>BATCH_SIZE = 10\<close> accounts; the effects of a run are, batch after batch, the usage requests
  of the batch followed by one cache update; the array it ends with (which the last cache
  update stores) has one entry for each input account, in input order, differing from the
  input in \<open>status\<close> and \<open>usageData\<close> at most. This holds for every order in which the
  answers of a batch arrive, and the run is the same for all of them
  (\<open>fetchUsageForAccounts_any_order\<close>).
\<close>

theorem fetchUsageForAccounts_batches:
  assumes "fetchUsageForAccounts be rt arrival accountList w = (results, w')"
  shows "BATCH_SIZE = 10 \<and>
         concat (chunks BATCH_SIZE accountList) = accountList \<and>
         list_all (\<lambda>b. 0 < length b \<and> length b \<le> BATCH_SIZE) (chunks BATCH_SIZE accountList) \<and>
         (\<exists>snaps. length snaps = length (chunks BATCH_SIZE accountList) \<and>
            effects w' = effects w @
              concat (map2 batchEffects (chunks BATCH_SIZE accountList) snaps) \<and>
            list_all (list_all2 sameAccount accountList) snaps \<and>
            results = last (accountList # snaps) \<and>
            cachedAccounts w' = last (cachedAccounts w # snaps)) \<and>
         length results = length accountList \<and>
         map acc_id results = map acc_id accountList \<and>
         list_all2 sameAccount accountList results"
proof -
  have same0: "list_all2 sameAccount accountList accountList"
    by (simp add: list_all2_conv_all_nth sameAccount_refl)
  have run: "fetchUsage_loop be rt arrival accountList 0 accountList w = (results, w')"
    using assms by (simp add: fetchUsageForAccounts_def)
  from fetchUsage_loop_spec [OF same0 run]
  obtain snaps where sn: "length snaps = length (chunks BATCH_SIZE accountList)"
    "effects w' = effects w @ concat (map2 batchEffects (chunks BATCH_SIZE accountList) snaps)"
    "list_all (list_all2 sameAccount accountList) snaps"
    "results = last (accountList # snaps)"
    "cachedAccounts w' = last (cachedAccounts w # snaps)"
    by auto
  have same: "list_all2 sameAccount accountList results"
  proof (cases "snaps = []")
    case True
    then show ?thesis using sn(4) same0 by simp
  next
    case False
    then have "last snaps \<in> set snaps" by simp
    then show ?thesis using sn(3,4) False by (simp add: list_all_iff)
  qed
  have len: "length results = length accountList"
    using same by (simp add: list_all2_lengthD)
  have ids: "map acc_id results = map acc_id accountList"
    using same by (auto simp: list_all2_conv_all_nth sameAccount_acc_id intro: nth_equalityI)
  have ex: "\<exists>snaps. length snaps = length (chunks BATCH_SIZE accountList) \<and>
            effects w' = effects w @
              concat (map2 batchEffects (chunks BATCH_SIZE accountList) snaps) \<and>
            list_all (list_all2 sameAccount accountList) snaps \<and>
            results = last (accountList # snaps) \<and>
            cachedAccounts w' = last (cachedAccounts w # snaps)"
    using sn by blast
  have bs: "BATCH_SIZE = 10" "0 < BATCH_SIZE" by (simp_all add: BATCH_SIZE_def)
  show ?thesis
    using ex same len ids chunks_concat [OF bs(2), of accountList]
      chunks_sizes [of BATCH_SIZE accountList] bs(1)
    by - (intro conjI, assumption+)
qed

lemma demo_fetch:
  "(case fetchUsageForAccounts demo_backend demo_runtime rev (take 3 demo_list)
           (demo_world (take 2 demo_names)) of
      (results, w') \<Rightarrow>
        (map status results, map acc_id results = map acc_id (take 3 demo_list),
         length (effects w'), cachedAccounts w' = results)) =
   ([''active'', ''active'', ''unknown''], True, 4, True)"
  by code_simp

lemma demo_chunks: "map length (chunks BATCH_SIZE demo_list) = [10, 2]"
  by code_simp

theorem fetchUsageForAccounts_batches_witness:
  "fetchUsageForAccounts demo_backend demo_runtime rev demo_list (demo_world (take 11 demo_names)) =
     (fst (fetchUsageForAccounts demo_backend demo_runtime rev demo_list
             (demo_world (take 11 demo_names))),
      snd (fetchUsageForAccounts demo_backend demo_runtime rev demo_list
             (demo_world (take 11 demo_names)))) \<and>
   map length (chunks BATCH_SIZE demo_list) = [10, 2] \<and>
   length (fst (fetchUsageForAccounts demo_backend demo_runtime rev demo_list
             (demo_world (take 11 demo_names)))) = 12 \<and>
   (\<exists>snaps. length snaps = 2 \<and>
      effects (snd (fetchUsageForAccounts demo_backend demo_runtime rev demo_list
                      (demo_world (take 11 demo_names)))) =
        concat (map2 batchEffects (chunks BATCH_SIZE demo_list) snaps) \<and>
      fst (fetchUsageForAccounts demo_backend demo_runtime rev demo_list
             (demo_world (take 11 demo_names))) = last snaps) \<and>
   map status (fst (fetchUsageForAccounts demo_backend demo_runtime rev (take 3 demo_list)
                      (demo_world (take 2 demo_names)))) =
     [''active'', ''active'', ''unknown'']"
proof -
  let ?run = "fetchUsageForAccounts demo_backend demo_runtime rev demo_list
                (demo_world (take 11 demo_names))"
  have p: "?run = (fst ?run, snd ?run)" by simp
  have l: "length demo_list = 12" by (simp add: demo_list_def demo_names_def)
  have c: "length (chunks BATCH_SIZE demo_list) = 2"
    using demo_chunks by (metis length_map list.size(3,4) One_nat_def Suc_1 add.commute plus_1_eq_Suc)
  have e: "effects (demo_world (take 11 demo_names)) = []" by (simp add: demo_world_def)
  from fetchUsageForAccounts_batches [OF p]
  obtain snaps where sn: "length snaps = length (chunks BATCH_SIZE demo_list)"
    "effects (snd ?run) = effects (demo_world (take 11 demo_names)) @
       concat (map2 batchEffects (chunks BATCH_SIZE demo_list) snaps)"
    "fst ?run = last (demo_list # snaps)" and n: "length (fst ?run) = length demo_list"
    by blast
  have ne: "snaps \<noteq> []" using sn(1) c by auto
  have x: "\<exists>snaps. length snaps = 2 \<and>
      effects (snd ?run) = concat (map2 batchEffects (chunks BATCH_SIZE demo_list) snaps) \<and>
      fst ?run = last snaps"
    using sn c e ne by (intro exI [of _ snaps]) simp
  have s3: "map status (fst (fetchUsageForAccounts demo_backend demo_runtime rev (take 3 demo_list)
                      (demo_world (take 2 demo_names)))) = [''active'', ''active'', ''unknown'']"
    using demo_fetch by (simp add: case_prod_beta)
  show ?thesis using p demo_chunks n l x s3 by - (intro conjI, (assumption | simp)+)
qed

section \<open>Properties of the import modal\<close>

lemma get_prop_not_null:
  "a \<noteq> JNull \<Longrightarrow> \<exists>em. get_prop a ''email'' = Inr em"
  "a \<noteq> JNull \<Longrightarrow> get_prop a ''refreshToken'' = Inr (tokenOf a)"
  by (cases a; simp add: get_prop_def tokenOf_def)+

lemma classifyAccount_not_null:
  assumes "a \<noteq> JNull"
  shows "\<exists>m. classifyAccount a i r =
     (if \<not> truthy (tokenOf a) then
        Inr (r\<lparr> invalid := invalid r @
               [\<lparr> inv_index = int i, inv_reason = ''Missing refreshToken'', inv_email = m \<rparr>] \<rparr>)
      else (case tokenOf a of
              Some (JStr s) \<Rightarrow>
                if \<not> startsWith s ''aor'' then
                  Inr (r\<lparr> invalid := invalid r @
                         [\<lparr> inv_index = int i, inv_reason = ''Invalid refreshToken'',
                            inv_email = m \<rparr>] \<rparr>)
                else Inr (r\<lparr> valid := valid r @ [a] \<rparr>)
            | _ \<Rightarrow> Inl TypeError))"
proof -
  from get_prop_not_null [OF assms] obtain em where
    g: "get_prop a ''email'' = Inr em" "get_prop a ''refreshToken'' = Inr (tokenOf a)" by blast
  show ?thesis
    by (rule exI [of _ "if truthy em then em else Some (JStr (''#'' @ show_nat (i + 1)))"])
       (simp only: classifyAccount_def g sum.case Let_def)
qed

lemma classifyAccount_classifiable:
  assumes "classifiable a"
  shows "\<exists>m. classifyAccount a i r =
     Inr (if validEntry a then r\<lparr> valid := valid r @ [a] \<rparr>
          else r\<lparr> invalid := invalid r @
                 [\<lparr> inv_index = int i, inv_reason = reasonOf a, inv_email = m \<rparr>] \<rparr>)"
proof -
  have nn: "a \<noteq> JNull" using assms by (simp add: classifiable_def)
  from classifyAccount_not_null [OF nn, of i r] obtain m where
    c: "classifyAccount a i r =
     (if \<not> truthy (tokenOf a) then
        Inr (r\<lparr> invalid := invalid r @
               [\<lparr> inv_index = int i, inv_reason = ''Missing refreshToken'', inv_email = m \<rparr>] \<rparr>)
      else (case tokenOf a of
              Some (JStr s) \<Rightarrow>
                if \<not> startsWith s ''aor'' then
                  Inr (r\<lparr> invalid := invalid r @
                         [\<lparr> inv_index = int i, inv_reason = ''Invalid refreshToken'',
                            inv_email = m \<rparr>] \<rparr>)
                else Inr (r\<lparr> valid := valid r @ [a] \<rparr>)
            | _ \<Rightarrow> Inl TypeError))" by blast
  show ?thesis
  proof (cases "tokenOf a")
    case None
    then show ?thesis using c
      by (intro exI [of _ m]) (simp add: validEntry_def reasonOf_def truthy_def)
  next
    case (Some v)
    show ?thesis
    proof (cases v)
      case (JStr s)
      then show ?thesis using c Some
        by (intro exI [of _ m])
           (simp add: validEntry_def reasonOf_def truthy_def startsWith_def)
    qed (use assms c Some in
          \<open>(intro exI [of _ m], simp add: classifiable_def validEntry_def reasonOf_def truthy_def)+\<close>)
  qed
qed

lemma classifyAccount_unclassifiable:
  assumes "\<not> classifiable a"
  shows "classifyAccount a i r = Inl TypeError"
proof (cases "a = JNull")
  case True
  then show ?thesis by (simp add: classifyAccount_def get_prop_def)
next
  case False
  from classifyAccount_not_null [OF False, of i r] obtain m where
    c: "classifyAccount a i r =
     (if \<not> truthy (tokenOf a) then
        Inr (r\<lparr> invalid := invalid r @
               [\<lparr> inv_index = int i, inv_reason = ''Missing refreshToken'', inv_email = m \<rparr>] \<rparr>)
      else (case tokenOf a of
              Some (JStr s) \<Rightarrow>
                if \<not> startsWith s ''aor'' then
                  Inr (r\<lparr> invalid := invalid r @
                         [\<lparr> inv_index = int i, inv_reason = ''Invalid refreshToken'',
                            inv_email = m \<rparr>] \<rparr>)
                else Inr (r\<lparr> valid := valid r @ [a] \<rparr>)
            | _ \<Rightarrow> Inl TypeError))" by blast
  show ?thesis
  proof (cases "tokenOf a")
    case None
    then show ?thesis using assms False by (simp add: classifiable_def truthy_def)
  next
    case (Some v)
    then show ?thesis using assms False c
      by (cases v) (simp_all add: classifiable_def truthy_def)
  qed
qed

lemma forEachAccount_classifiable:
  "list_all classifiable as \<Longrightarrow>
   \<exists>r'. forEachAccount as i r = Inr r' \<and>
     valid r' = valid r @ filter validEntry as \<and>
     map (\<lambda>e. (inv_index e, inv_reason e)) (invalid r') =
       map (\<lambda>e. (inv_index e, inv_reason e)) (invalid r) @
       map (\<lambda>(k, a). (int k, reasonOf a)) (filter (\<lambda>(k, a). \<not> validEntry a) (enumerate i as))"
proof (induction as arbitrary: i r)
  case Nil
  show ?case by simp
next
  case (Cons a as)
  then have ca: "classifiable a" and cas: "list_all classifiable as" by simp_all
  from classifyAccount_classifiable [OF ca, of i r] obtain m where
    c: "classifyAccount a i r =
     Inr (if validEntry a then r\<lparr> valid := valid r @ [a] \<rparr>
          else r\<lparr> invalid := invalid r @
                 [\<lparr> inv_index = int i, inv_reason = reasonOf a, inv_email = m \<rparr>] \<rparr>)" by blast
  show ?case
  proof (cases "validEntry a")
    case True
    from Cons.IH [OF cas, of "i + 1" "r\<lparr> valid := valid r @ [a] \<rparr>"] c True
    show ?thesis by auto
  next
    case False
    from Cons.IH [OF cas, of "i + 1" "r\<lparr> invalid := invalid r @
                 [\<lparr> inv_index = int i, inv_reason = reasonOf a, inv_email = m \<rparr>] \<rparr>"] c False
    show ?thesis by auto
  qed
qed

lemma forEachAccount_unclassifiable:
  "\<not> list_all classifiable as \<Longrightarrow> \<exists>e. forEachAccount as i r = Inl e"
proof (induction as arbitrary: i r)
  case Nil
  then show ?case by simp
next
  case (Cons a as)
  show ?case
  proof (cases "classifiable a")
    case False
    then show ?thesis by (simp add: classifyAccount_unclassifiable)
  next
    case True
    then have "\<not> list_all classifiable as" using Cons.prems by simp
    from Cons.IH [OF this] classifyAccount_classifiable [OF True, of i r]
    show ?thesis by (auto split: sum.splits)
  qed
qed

lemma parseJson_unclassifiable:
  "trim text \<noteq> [] \<Longrightarrow> P text = Some data \<Longrightarrow> \<not> list_all classifiable (entries data) \<Longrightarrow>
   parseJson P text = Some invalidJson"
  using forEachAccount_unclassifiable [of "entries data" 0 "\<lparr> valid = [], invalid = [] \<rparr>"]
  by (auto simp: parseJson_def entries_def Let_def)

lemma length_filter_enumerate:
  "length (filter (\<lambda>(k, a). \<not> Q a) (enumerate i as)) = length (filter (\<lambda>a. \<not> Q a) as)"
  by (induction as arbitrary: i) auto

text \<open>
  C4 (amended). \<open>parseJson\<close> returns nothing (\<open>null\<close>) for a blank text, one of white space
  and line terminators only, those outside ASCII included. For any other text:
  when \<open>JSON.parse\<close> throws, the result has no valid entry and the one invalid entry
  \<open>Invalid JSON format\<close>; when it gives a value, a value that is not an array is taken as a
  list of one entry, and if no entry is \<open>null\<close> and every \<open>refreshToken\<close> is falsy (missing,
  \<open>null\<close>, \<open>false\<close>, 0, the empty string) or a string, then an entry is valid exactly when
  its \<open>refreshToken\<close> is a string starting with \<open>aor\<close>, an entry with a falsy \<open>refreshToken\<close>
  is invalid with reason \<open>Missing refreshToken\<close>, one with another string is invalid with
  reason \<open>Invalid refreshToken\<close>, and every entry is in exactly one of the two lists, in input
  order, the invalid ones with their index.
\<close>

theorem parseJson_classifies:
  "(trim text = [] \<longrightarrow> parseJson P text = None) \<and>
   (trim text \<noteq> [] \<and> P text = None \<longrightarrow> parseJson P text = Some invalidJson) \<and>
   (trim text \<noteq> [] \<and> P text = Some data \<and> list_all classifiable (entries data) \<longrightarrow>
      (\<exists>r. parseJson P text = Some r \<and>
            valid r = filter validEntry (entries data) \<and>
            map (\<lambda>e. (inv_index e, inv_reason e)) (invalid r) =
              map (\<lambda>(k, a). (int k, reasonOf a))
                (filter (\<lambda>(k, a). \<not> validEntry a) (enumerate 0 (entries data))) \<and>
            length (valid r) + length (invalid r) = length (entries data)))"
proof (intro conjI impI)
  show "trim text = [] \<Longrightarrow> parseJson P text = None" by (simp add: parseJson_def)
next
  show "trim text \<noteq> [] \<and> P text = None \<Longrightarrow> parseJson P text = Some invalidJson"
    by (simp add: parseJson_def)
next
  assume h: "trim text \<noteq> [] \<and> P text = Some data \<and> list_all classifiable (entries data)"
  then have cl: "list_all classifiable (entries data)" by simp
  from forEachAccount_classifiable [OF cl, of 0 "\<lparr> valid = [], invalid = [] \<rparr>"]
  obtain r where r1: "forEachAccount (entries data) 0 \<lparr> valid = [], invalid = [] \<rparr> = Inr r"
    and r2: "valid r = valid \<lparr> valid = [], invalid = [] \<rparr> @ filter validEntry (entries data)"
    and r3: "map (\<lambda>e. (inv_index e, inv_reason e)) (invalid r) =
       map (\<lambda>e. (inv_index e, inv_reason e)) (invalid \<lparr> valid = [], invalid = [] \<rparr>) @
       map (\<lambda>(k, a). (int k, reasonOf a))
         (filter (\<lambda>(k, a). \<not> validEntry a) (enumerate 0 (entries data)))"
    by blast
  have v: "valid r = filter validEntry (entries data)" using r2 by simp
  have i: "map (\<lambda>e. (inv_index e, inv_reason e)) (invalid r) =
       map (\<lambda>(k, a). (int k, reasonOf a))
         (filter (\<lambda>(k, a). \<not> validEntry a) (enumerate 0 (entries data)))"
    using r3 by simp
  have p: "parseJson P text = Some r"
    using h r1 by (simp add: parseJson_def entries_def Let_def)
  have "length (map (\<lambda>e. (inv_index e, inv_reason e)) (invalid r)) =
        length (filter (\<lambda>(k, a). \<not> validEntry a) (enumerate 0 (entries data)))"
    unfolding i by simp
  then have "length (invalid r) = length (filter (\<lambda>a. \<not> validEntry a) (entries data))"
    by (simp add: length_filter_enumerate)
  then have n: "length (valid r) + length (invalid r) = length (entries data)"
    using sum_length_filter_compl [of validEntry "entries data"] by (simp add: v)
  show "\<exists>r. parseJson P text = Some r \<and>
            valid r = filter validEntry (entries data) \<and>
            map (\<lambda>e. (inv_index e, inv_reason e)) (invalid r) =
              map (\<lambda>(k, a). (int k, reasonOf a))
                (filter (\<lambda>(k, a). \<not> validEntry a) (enumerate 0 (entries data))) \<and>
            length (valid r) + length (invalid r) = length (entries data)"
    using p v i n by - (rule exI [of _ r], intro conjI, assumption+)
qed

lemma demo_blank: "trim ''  '' = [] \<and> trim [] = [] \<and> trim blank_text = []"
  by code_simp

lemma demo_broken: "trim ''[1,'' \<noteq> [] \<and> demo_JSON_parse ''[1,'' = None"
  by code_simp

lemma demo_parsed:
  "trim demo_text \<noteq> [] \<and> demo_JSON_parse demo_text = Some demo_data \<and>
   list_all classifiable (entries demo_data)"
  by code_simp

lemma demo_classes:
  "filter validEntry (entries demo_data) =
     [JObj [(''email'', JStr ''a@x.io''), (''refreshToken'', JStr ''aorAAA'')]] \<and>
   map (\<lambda>(k, a). (int k, reasonOf a))
     (filter (\<lambda>(k, a). \<not> validEntry a) (enumerate 0 (entries demo_data))) =
     [(1, ''Missing refreshToken''), (2, ''Invalid refreshToken'')]"
  by code_simp

theorem parseJson_classifies_witness:
  "trim ''  '' = [] \<and> parseJson demo_JSON_parse ''  '' = None \<and>
   trim blank_text = [] \<and> parseJson demo_JSON_parse blank_text = None \<and>
   trim ''[1,'' \<noteq> [] \<and> demo_JSON_parse ''[1,'' = None \<and>
   parseJson demo_JSON_parse ''[1,'' = Some invalidJson \<and>
   trim demo_text \<noteq> [] \<and> demo_JSON_parse demo_text = Some demo_data \<and>
   list_all classifiable (entries demo_data) \<and>
   (\<exists>r. parseJson demo_JSON_parse demo_text = Some r \<and>
        valid r = [JObj [(''email'', JStr ''a@x.io''), (''refreshToken'', JStr ''aorAAA'')]] \<and>
        map (\<lambda>e. (inv_index e, inv_reason e)) (invalid r) =
          [(1, ''Missing refreshToken''), (2, ''Invalid refreshToken'')])"
proof -
  have a: "parseJson demo_JSON_parse ''  '' = None"
    using parseJson_classifies [of "''  ''" demo_JSON_parse] demo_blank by blast
  have u: "parseJson demo_JSON_parse blank_text = None"
    using parseJson_classifies [of blank_text demo_JSON_parse] demo_blank by blast
  have b: "parseJson demo_JSON_parse ''[1,'' = Some invalidJson"
    using parseJson_classifies [of "''[1,''" demo_JSON_parse] demo_broken by blast
  from parseJson_classifies [of demo_text demo_JSON_parse demo_data] demo_parsed
  obtain r where r: "parseJson demo_JSON_parse demo_text = Some r"
    "valid r = filter validEntry (entries demo_data)"
    "map (\<lambda>e. (inv_index e, inv_reason e)) (invalid r) =
       map (\<lambda>(k, a). (int k, reasonOf a))
         (filter (\<lambda>(k, a). \<not> validEntry a) (enumerate 0 (entries demo_data)))"
    by blast
  have c: "\<exists>r. parseJson demo_JSON_parse demo_text = Some r \<and>
        valid r = [JObj [(''email'', JStr ''a@x.io''), (''refreshToken'', JStr ''aorAAA'')]] \<and>
        map (\<lambda>e. (inv_index e, inv_reason e)) (invalid r) =
          [(1, ''Missing refreshToken''), (2, ''Invalid refreshToken'')]"
    using r demo_classes by (intro exI [of _ r]) simp
  show ?thesis using a u b c demo_blank demo_broken demo_parsed by blast
qed

text \<open>
  Where the claim as stated fails: the empty text is not JSON, and \<open>parseJson\<close> returns
  \<open>null\<close> for it, not a result with one invalid entry; \<open>[null]\<close> and an entry with a number as
  \<open>refreshToken\<close> are JSON, yet the result is the one of a text that is not JSON, with the
  entry in neither list; and an empty \<open>refreshToken\<close>, which does not start with \<open>aor\<close>, is
  reported as missing.
\<close>

theorem parseJson_counterexample:
  \<open>demo_JSON_parse [] = None \<and> parseJson demo_JSON_parse [] = None \<and>
   demo_JSON_parse ''[null]'' = Some (JArr [JNull]) \<and>
   parseJson demo_JSON_parse ''[null]'' = Some invalidJson \<and>
   demo_JSON_parse ''[{"refreshToken":5}]'' = Some (JArr [JObj [(''refreshToken'', JNum 5)]]) \<and>
   parseJson demo_JSON_parse ''[{"refreshToken":5}]'' = Some invalidJson \<and>
   \<not> startsWith [] ''aor'' \<and>
   map_option (\<lambda>r. map inv_reason (invalid r)) (parseJson demo_JSON_parse ''[{"refreshToken":""}]'') =
     Some [''Missing refreshToken'']\<close>
  by code_simp

section \<open>Properties of the OAuth polling\<close>

lemma installPoller_registers:
  "timers (installPoller pl pg) (p_key pl) = Some (next_timer pg) \<and>
   List.member (intervals (installPoller pl pg)) (next_timer pg) \<and>
   pollers (installPoller pl pg) (next_timer pg) = Some pl"
  by (simp add: installPoller_def setInterval_def clearInterval_def Let_def
        split: option.splits)

lemma installPoller_clears:
  "timers pg (p_key pl) = Some old \<Longrightarrow> old \<noteq> 0 \<Longrightarrow> old \<noteq> next_timer pg \<Longrightarrow>
   \<not> List.member (intervals (installPoller pl pg)) old"
  by (simp add: installPoller_def setInterval_def clearInterval_def Let_def)

lemma pollCallback_stops_iff:
  "List.member (intervals pg) t \<Longrightarrow>
   (\<not> List.member (intervals (pollCallback t pl reply pg)) t) \<longleftrightarrow>
   (case reply of Inl e \<Rightarrow> True | Inr res \<Rightarrow> as_status res = ''ok'' \<or> as_status res = ''error'')"
  by (auto simp: pollCallback_def stopPolling_def clearInterval_def updateView_def
        split: sum.splits)

lemma kiroCallback_stops_iff:
  "List.member (intervals pg) t \<Longrightarrow>
   (\<not> List.member (intervals (kiroCallback t pl reply pg)) t) \<longleftrightarrow>
   (case reply of
      Inl e \<Rightarrow> True
    | Inr res \<Rightarrow> as_status res = ''ok'' \<or>
                (as_status res = ''error'' \<and>
                 \<not> startsWith (str_or_else (as_error res) []) ''auth_url|''))"
  by (auto simp: kiroCallback_def stopPolling_def clearInterval_def updateView_def
        openAuthUrl_def Let_def split: sum.splits)

lemma wf_init: "wf_page init_page"
  by (simp add: wf_page_def init_page_def)

lemma wf_active_le1:
  assumes "wf_page pg"
  shows "length (activeFor k pg) \<le> 1"
proof -
  have d: "distinct (activeFor k pg)" using assms by (simp add: wf_page_def activeFor_def)
  have "t \<in> set (activeFor k pg) \<Longrightarrow> timers pg k = Some t" for t
    using assms by (auto simp: wf_page_def activeFor_def split: option.splits)
  then have "set (activeFor k pg) \<subseteq> {the (timers pg k)}" by auto
  then have "card (set (activeFor k pg)) \<le> card {the (timers pg k)}"
    by (intro card_mono) simp_all
  then show ?thesis using d by (simp add: distinct_card)
qed

lemma wf_install:
  assumes "wf_page pg" and "p_kiro pl \<longrightarrow> p_key pl = ''kiro''"
  shows "wf_page (installPoller pl pg)"
proof -
  define I1 where "I1 = (case timers pg (p_key pl) of
                           None \<Rightarrow> intervals pg
                         | Some old \<Rightarrow> if old \<noteq> 0 then removeAll old (intervals pg)
                                       else intervals pg)"
  have i: "intervals (installPoller pl pg) = I1 @ [next_timer pg]"
    "pollers (installPoller pl pg) = (pollers pg)(next_timer pg \<mapsto> pl)"
    "timers (installPoller pl pg) = (timers pg)(p_key pl \<mapsto> next_timer pg)"
    "next_timer (installPoller pl pg) = next_timer pg + 1"
    by (simp_all add: installPoller_def setInterval_def clearInterval_def Let_def I1_def
          split: option.splits)
  have sub: "set I1 \<subseteq> set (intervals pg)" and d1: "distinct I1"
    using assms(1) by (auto simp: I1_def wf_page_def distinct_removeAll split: option.splits)
  have nk: "p_key q \<noteq> p_key pl" if "t \<in> set I1" "pollers pg t = Some q"
    "timers pg (p_key q) = Some t" "0 < t" for t q
    using that by (auto simp: I1_def split: option.splits if_splits)
  have g1: "distinct (I1 @ [next_timer pg])"
    using d1 sub assms(1) by (auto simp: wf_page_def)
  have g2: "0 < next_timer pg + 1" by simp
  have g3: "\<forall>t \<in> set (I1 @ [next_timer pg]). 0 < t \<and> t < next_timer pg + 1 \<and>
          (\<exists>q. ((pollers pg)(next_timer pg \<mapsto> pl)) t = Some q \<and>
                ((timers pg)(p_key pl \<mapsto> next_timer pg)) (p_key q) = Some t \<and>
                (p_kiro q \<longrightarrow> p_key q = ''kiro''))"
  proof (rule ballI)
    fix t assume t: "t \<in> set (I1 @ [next_timer pg])"
    show "0 < t \<and> t < next_timer pg + 1 \<and>
          (\<exists>q. ((pollers pg)(next_timer pg \<mapsto> pl)) t = Some q \<and>
                ((timers pg)(p_key pl \<mapsto> next_timer pg)) (p_key q) = Some t \<and>
                (p_kiro q \<longrightarrow> p_key q = ''kiro''))"
    proof (cases "t = next_timer pg")
      case True
      have "0 < next_timer pg" using assms(1) by (simp add: wf_page_def)
      then show ?thesis using True assms(2) by simp
    next
      case False
      then have t1: "t \<in> set I1" using t by simp
      then have "t \<in> set (intervals pg)" using sub by auto
      then obtain q where q: "0 < t" "t < next_timer pg" "pollers pg t = Some q"
        "timers pg (p_key q) = Some t" "p_kiro q \<longrightarrow> p_key q = ''kiro''"
        using assms(1) by (auto simp: wf_page_def)
      from nk [OF t1 q(3,4,1)] q False show ?thesis by simp
    qed
  qed
  show ?thesis
    unfolding wf_page_def i by (intro conjI) (rule g1 g2 g3)+
qed

lemma wf_cong:
  "intervals pg' = intervals pg \<Longrightarrow> pollers pg' = pollers pg \<Longrightarrow> timers pg' = timers pg \<Longrightarrow>
   next_timer pg' = next_timer pg \<Longrightarrow> wf_page pg' = wf_page pg"
  by (simp add: wf_page_def)

lemma wf_stop:
  assumes "wf_page pg" and "t \<in> set (intervals pg)" and "pollers pg t = Some pl"
  shows "wf_page (stopPolling t (p_key pl) pg)"
proof -
  have reg: "timers pg (p_key pl) = Some t"
    using assms by (auto simp: wf_page_def)
  have f: "intervals (stopPolling t (p_key pl) pg) = removeAll t (intervals pg)"
    "pollers (stopPolling t (p_key pl) pg) = pollers pg"
    "timers (stopPolling t (p_key pl) pg) = (timers pg)(p_key pl := None)"
    "next_timer (stopPolling t (p_key pl) pg) = next_timer pg"
    by (simp_all add: stopPolling_def clearInterval_def)
  have g1: "distinct (removeAll t (intervals pg))"
    using assms(1) by (simp add: wf_page_def distinct_removeAll)
  have g2: "0 < next_timer pg" using assms(1) by (simp add: wf_page_def)
  have g3: "\<forall>u \<in> set (removeAll t (intervals pg)). 0 < u \<and> u < next_timer pg \<and>
          (\<exists>q. pollers pg u = Some q \<and> ((timers pg)(p_key pl := None)) (p_key q) = Some u \<and>
                (p_kiro q \<longrightarrow> p_key q = ''kiro''))"
  proof (rule ballI)
    fix u assume "u \<in> set (removeAll t (intervals pg))"
    then have u: "u \<in> set (intervals pg)" "u \<noteq> t" by simp_all
    then obtain q where q: "0 < u" "u < next_timer pg" "pollers pg u = Some q"
      "timers pg (p_key q) = Some u" "p_kiro q \<longrightarrow> p_key q = ''kiro''"
      using assms(1) unfolding wf_page_def by blast
    have "p_key q \<noteq> p_key pl" using q(4) reg u(2) by auto
    then show "0 < u \<and> u < next_timer pg \<and>
          (\<exists>q. pollers pg u = Some q \<and> ((timers pg)(p_key pl := None)) (p_key q) = Some u \<and>
                (p_kiro q \<longrightarrow> p_key q = ''kiro''))"
      using q by simp
  qed
  show ?thesis
    unfolding wf_page_def f by (intro conjI) (rule g1 g2 g3)+
qed

lemma wf_step:
  assumes "wf_page pg"
    and "case ev of Reply t reply \<Rightarrow> List.member (intervals pg) t | _ \<Rightarrow> True"
  shows "wf_page (step ev pg)"
proof (cases ev)
  case (StartPolling prov st)
  then show ?thesis using assms(1) by (simp add: step_def startPolling_def wf_install)
next
  case (StartKiroPolling st)
  then show ?thesis using assms(1) by (simp add: step_def startKiroPolling_def wf_install)
next
  case (Tick t)
  then show ?thesis using assms(1) by (simp add: step_def wf_page_def)
next
  case (Reply t reply)
  then have act: "t \<in> set (intervals pg)" using assms(2) by simp
  then obtain pl where pl: "pollers pg t = Some pl" "p_kiro pl \<longrightarrow> p_key pl = ''kiro''"
    using assms(1) by (auto simp: wf_page_def)
  define pg1 where "pg1 = pg\<lparr> in_flight := remove1 t (in_flight pg) \<rparr>"
  have w1: "wf_page pg1" using assms(1) by (simp add: pg1_def wf_page_def)
  have a1: "t \<in> set (intervals pg1)" "pollers pg1 t = Some pl"
    using act pl by (simp_all add: pg1_def)
  have stop: "wf_page (stopPolling t (p_key pl) (updateView k f pg1))" for k f
  proof -
    have "wf_page (updateView k f pg1)" using w1 by (simp add: updateView_def wf_page_def)
    moreover have "t \<in> set (intervals (updateView k f pg1))"
      "pollers (updateView k f pg1) t = Some pl"
      using a1 by (simp_all add: updateView_def)
    ultimately show ?thesis by (rule wf_stop)
  qed
  have view: "wf_page (updateView k f pg1)" for k f
    using w1 by (simp add: updateView_def wf_page_def)
  have opn: "wf_page (openAuthUrl t u pg1)" for u
    using w1 by (simp add: openAuthUrl_def updateView_def wf_page_def)
  have cb: "wf_page ((if p_kiro pl then kiroCallback t pl reply else pollCallback t pl reply) pg1)"
  proof (cases "p_kiro pl")
    case False
    then show ?thesis using stop w1
      by (simp add: pollCallback_def split: sum.splits)
  next
    case True
    then have k: "p_key pl = ''kiro''" using pl(2) by simp
    show ?thesis using True stop [unfolded k] w1 view opn
      by (simp add: kiroCallback_def Let_def split: sum.splits)
  qed
  show ?thesis
    using Reply cb pl(1) assms(1) by (simp add: step_def pg1_def)
qed

lemma timely_one_timer:
  "wf_page pg \<Longrightarrow> timely evs pg \<Longrightarrow> length (activeFor k (run evs pg)) \<le> 1"
proof (induction evs arbitrary: pg)
  case Nil
  then show ?case using wf_active_le1 [of pg k] by (simp add: run_def)
next
  case (Cons ev evs)
  have "wf_page (step ev pg)" using Cons.prems by (intro wf_step) simp_all
  then show ?case using Cons by (simp add: run_def)
qed

text \<open>
  C3. \<open>startPolling\<close> and \<open>startKiroPolling\<close> clear the timer registered for the key and
  install and register a new one with an interval of 3000 ms (\<open>installPoller_clears\<close>,
  \<open>installPoller_registers\<close>), and a callback clears its timer exactly on \<open>ok\<close>, on a final
  \<open>error\<close> and when the request throws (\<open>pollCallback_stops_iff\<close>, \<open>kiroCallback_stops_iff\<close>).
  At most one timer per key is active as long as no answer arrives for a timer that was
  already cleared (\<open>timely_one_timer\<close>). Such an answer makes the callback delete the
  registration of the key, which by then may belong to a newer timer: at the end of
  \<open>race_trace\<close> the timers 2 and 3 both poll for \<open>codex\<close>.
\<close>

theorem polling_timers_race:
  "timers (run (take 6 race_trace) init_page) ''codex'' = None \<and>
   intervals (run (take 6 race_trace) init_page) = [2] \<and>
   map_option v_polling (views (run (take 6 race_trace) init_page) ''codex'') = Some False \<and>
   activeFor ''codex'' (run race_trace init_page) = [2, 3] \<and>
   map_option p_delay (pollers (run race_trace init_page) 2) = Some 3000 \<and>
   map_option p_delay (pollers (run race_trace init_page) 3) = Some 3000"
  by code_simp

end
